theory Spec2Isabelle
  imports Main "HOL-Library.Sublist"
begin

section \<open>The extension-function binding layer of rencpp (include/rencpp/extension.hpp)\<close>

text \<open>
  The header lets a host program register a typed C++ callable as a native function of
  the Rebol/Red runtime. The runtime only knows entry points of the form
  \<^verbatim>\<open>int shim(RenCell * stack)\<close>. Each registered callable gets a trampoline (the lambda
  produced by the macro \<^verbatim>\<open>REN_STD_FUNCTION\<close>) that learns its own identity on its first
  call and forwards every later call to \<^verbatim>\<open>FunctionGenerator<R, Ts...>::bounceShim\<close>,
  which looks the callable up in a per-signature table, builds the typed arguments from
  the stack, applies the callable and writes the result back.

  The embedding is sequential: one thread, with the mutex kept as a flag so that locking
  it twice is visible. Every C++ exception, failed \<^verbatim>\<open>assert\<close> and undefined behaviour is
  a value of the type \<open>failure\<close>; the functions return it beside the state they leave.
  Callables and shims written by hand are host code: they act on the host's own state
  and do not call back into this layer.
\<close>

subsection \<open>Failures and status codes\<close>

datatype failure =
    Exception string
      \<comment> \<open>a C++ exception on its way to the caller; the string is its \<^verbatim>\<open>what()\<close>\<close>
  | AssertionFailed
      \<comment> \<open>\<^verbatim>\<open>assert\<close> aborted the process\<close>
  | UndefinedBehaviour
      \<comment> \<open>an index outside a \<^verbatim>\<open>std::vector\<close>, a null pointer read or written, a call through
          a null function pointer, \<^verbatim>\<open>lock()\<close> on a mutex the thread already owns\<close>

text \<open>An exception unwinds to the caller, who may go on; the other failures end the process.\<close>

fun fatal :: "failure \<Rightarrow> bool" where
  "fatal (Exception _) = False"
| "fatal AssertionFailed = True"
| "fatal UndefinedBehaviour = True"

text \<open>
  Modelled from the spec: the header that defines the status codes \<^verbatim>\<open>REN_SUCCESS\<close> and
  \<^verbatim>\<open>REN_SHIM_INITIALIZED\<close> is not among the sources. The two codes this layer gives a
  meaning are the "success" code and the distinguished "initialized" sentinel; a shim
  written by hand may return any other \<^verbatim>\<open>int\<close>.
\<close>

datatype RenResult = REN_SUCCESS | REN_SHIM_INITIALIZED | REN_STATUS int

subsection \<open>Cells, the stack, values and callables\<close>

text \<open>
  Modelled from the spec: the macros \<^verbatim>\<open>REN_STACK_ARGUMENT\<close> and \<^verbatim>\<open>REN_STACK_RETURN\<close> are not
  among the sources. Arguments are read from the stack by position, the return value is
  written to one fixed slot of the same stack. The pointer \<^verbatim>\<open>RenCell * stack\<close> may be
  null (\<open>None\<close>); reading or writing through it then is undefined behaviour, as is reading
  an argument the stack does not hold.
\<close>

record 'c RenStack =
  stack_return :: 'c
  stack_arguments :: "'c list"

fun REN_STACK_ARGUMENT :: "'c RenStack option \<Rightarrow> nat \<Rightarrow> failure + 'c" where
  "REN_STACK_ARGUMENT None i = Inl UndefinedBehaviour"
| "REN_STACK_ARGUMENT (Some st) i =
     (if i < length (stack_arguments st) then Inr (stack_arguments st ! i)
      else Inl UndefinedBehaviour)"

fun REN_STACK_RETURN_assign :: "'c RenStack option \<Rightarrow> 'c \<Rightarrow> failure + 'c RenStack option" where
  "REN_STACK_RETURN_assign None c = Inl UndefinedBehaviour"
| "REN_STACK_RETURN_assign (Some st) c = Inr (Some (st\<lparr>stack_return := c\<rparr>))"

text \<open>
  \<^verbatim>\<open>std::function<R(Ts...)>\<close>: host code. It receives the constructed values, may change
  the host's state \<open>'w\<close>, and returns a value or fails.
\<close>

type_synonym ('v, 'w) FunType = "'v list \<Rightarrow> 'w \<Rightarrow> (failure + 'v) \<times> 'w"

record ('e, 'v, 'w) TableEntry =
  engine :: 'e
  fun' :: "('v, 'w) FunType"

text \<open>
  A signature \<^verbatim>\<open><R, Ts...>\<close> is one specialization of the class template: it has its own
  static \<^verbatim>\<open>table\<close> and its own \<^verbatim>\<open>bounceShim\<close>, so the address of that function
  (\<^verbatim>\<open>RenShimBouncer\<close>) is the signature itself.
\<close>

record 't Signature =
  sig_R :: 't
  sig_Ts :: "'t list"

type_synonym RenShimId = int

type_synonym 't RenShimBouncer = "'t Signature option"

text \<open>
  \<^verbatim>\<open>RenShimPointer\<close>, a bare function pointer. It is either an expansion of the macro
  \<^verbatim>\<open>REN_STD_FUNCTION\<close> (numbered: each expansion is a lambda with its own two statics), or
  a function the host wrote by hand, which acts on the stack and on the host's state.
\<close>

datatype ('c, 'w) RenShimPointer =
    REN_STD_FUNCTION nat
  | HostShim "'c RenStack option \<Rightarrow> 'w \<Rightarrow> (failure + RenResult) \<times> 'c RenStack option \<times> 'w"

type_synonym Block = string

text \<open>
  Modelled from the spec: \<^verbatim>\<open>Value::construct\<close>, the member \<^verbatim>\<open>cell\<close> of a value and
  \<^verbatim>\<open>Function::finishInit\<close> belong to headers that are not among the sources. They are the
  opaque operations "construct a value of type T from a raw cell, using an engine
  context", "the raw representation of a value" and "the finalization that makes the
  trampoline visible as a native function under the specification"; construction may have
  side effects on the host's state and may fail.

  \<open>argOrder\<close> is the C++ implementation's choice of the order in which the argument
  expressions of one call are evaluated: it receives them in the order they are written
  and returns them in the order they are run. The language leaves this order unspecified
  (it is fixed, left to right, only inside a braced list, which the header does not use).
  An order is any arrangement of the expressions: each is run once.
\<close>

record ('e, 'c, 't, 'v, 'w) Runtime =
  construct :: "'e \<Rightarrow> 't \<Rightarrow> 'c \<Rightarrow> 'w \<Rightarrow> (failure + 'v) \<times> 'w"
  cell :: "'v \<Rightarrow> 'c"
  finishInit :: "'e \<Rightarrow> Block \<Rightarrow> ('c, 'w) RenShimPointer \<Rightarrow> 'w \<Rightarrow> (failure + 'c) \<times> 'w"
  argOrder :: "(nat \<times> 't) list \<Rightarrow> (nat \<times> 't) list"

definition evaluation_order :: "'a list \<Rightarrow> 'a list \<Rightarrow> bool" where
  "evaluation_order ord written \<longleftrightarrow> distinct ord \<and> set ord = set written"

subsection \<open>The state of the process\<close>

record 't ShimStatics =
  shim_id :: RenShimId
  shim_bouncer :: "'t RenShimBouncer"

record ('e, 't, 'v, 'w) Process =
  extensionTablesMutex :: bool
  shimIdToCapture :: RenShimId
  shimBouncerToCapture :: "'t RenShimBouncer"
  table :: "'t Signature \<Rightarrow> ('e, 'v, 'w) TableEntry list"
  statics :: "nat \<Rightarrow> 't ShimStatics"
  world :: 'w

text \<open>
  \<open>table\<close> holds the static vector of every specialization, \<open>statics n\<close> the two statics
  of the \<open>n\<close>-th expansion of \<^verbatim>\<open>REN_STD_FUNCTION\<close>, \<open>world\<close> the host's state. At start-up
  the static initializers have run and nothing is registered.
\<close>

definition startup :: "'w \<Rightarrow> ('e, 't, 'v, 'w) Process" where
  "startup w =
     \<lparr>extensionTablesMutex = False,
      shimIdToCapture = - 1,
      shimBouncerToCapture = None,
      table = (\<lambda>_. []),
      statics = (\<lambda>_. \<lparr>shim_id = - 1, shim_bouncer = None\<rparr>),
      world = w\<rparr>"

subsection \<open>Machine integers and vectors\<close>

text \<open>
  \<^verbatim>\<open>shimIdToCapture = table.size()\<close> narrows a \<^verbatim>\<open>size_t\<close> to a 32-bit \<^verbatim>\<open>int\<close>: the value
  modulo \<open>2^32\<close>, read as signed.
\<close>

definition shimIdOfSize :: "nat \<Rightarrow> RenShimId" where
  "shimIdOfSize n = (int n + 2 ^ 31) mod 2 ^ 32 - 2 ^ 31"

text \<open>\<^verbatim>\<open>std::vector::operator[]\<close> does not check its index.\<close>

definition vector_at :: "'a list \<Rightarrow> int \<Rightarrow> failure + 'a" where
  "vector_at xs i =
     (if 0 \<le> i \<and> i < int (length xs) then Inr (xs ! nat i) else Inl UndefinedBehaviour)"

subsection \<open>applyFunImpl and applyFun\<close>

text \<open>
  The argument expressions of the call \<^verbatim>\<open>fun(Value::construct<T_I>(engine,
  *REN_STACK_ARGUMENT(stack, I))...)\<close>, run in the given order. Each is the index \<open>I\<close> with
  its type \<^verbatim>\<open>type_at<I, Ts...>\<close>. The values built so far are kept by index; the first
  failure ends the evaluation.
\<close>

fun constructArgs ::
  "('e, 'c, 't, 'v, 'w) Runtime \<Rightarrow> 'e \<Rightarrow> 'c RenStack option \<Rightarrow> (nat \<times> 't) list \<Rightarrow>
   (nat \<rightharpoonup> 'v) \<Rightarrow> 'w \<Rightarrow> (failure + (nat \<rightharpoonup> 'v)) \<times> 'w" where
  "constructArgs P eng stack [] built w = (Inr built, w)"
| "constructArgs P eng stack ((I, T) # rest) built w =
     (case REN_STACK_ARGUMENT stack I of
        Inl f \<Rightarrow> (Inl f, w)
      | Inr c \<Rightarrow>
          (case construct P eng T c w of
             (Inl f, w') \<Rightarrow> (Inl f, w')
           | (Inr v, w') \<Rightarrow> constructArgs P eng stack rest (built(I \<mapsto> v)) w'))"

text \<open>
  \<open>applyFunImpl\<close>: evaluate the argument expressions in the implementation's order, then
  call \<open>fun\<close> on the values in the order the expressions are written. (An order that
  leaves an argument out is no evaluation of the call.)
\<close>

definition applyFunImpl ::
  "('e, 'c, 't, 'v, 'w) Runtime \<Rightarrow> ('v, 'w) FunType \<Rightarrow> 'e \<Rightarrow> 'c RenStack option \<Rightarrow>
   (nat \<times> 't) list \<Rightarrow> 'w \<Rightarrow> (failure + 'v) \<times> 'w" where
  "applyFunImpl P f eng stack indices w =
     (case constructArgs P eng stack (argOrder P indices) Map.empty w of
        (Inl x, w') \<Rightarrow> (Inl x, w')
      | (Inr built, w') \<Rightarrow>
          (case those (map (\<lambda>(I, T). built I) indices) of
             None \<Rightarrow> (Inl UndefinedBehaviour, w')
           | Some vs \<Rightarrow> f vs w'))"

text \<open>\<open>applyFun\<close>: the indices are \<^verbatim>\<open>make_indices<sizeof...(Ts)>\<close>, that is \<open>0 .. k-1\<close>.\<close>

definition applyFun ::
  "('e, 'c, 't, 'v, 'w) Runtime \<Rightarrow> 't list \<Rightarrow> ('v, 'w) FunType \<Rightarrow> 'e \<Rightarrow>
   'c RenStack option \<Rightarrow> 'w \<Rightarrow> (failure + 'v) \<times> 'w" where
  "applyFun P Ts f eng stack w = applyFunImpl P f eng stack (enumerate 0 Ts) w"

subsection \<open>The invoker as the specification words it\<close>

text \<open>
  The specification says: "for each argument position 0..k-1, in strictly left-to-right
  order, construct a value of the statically-known argument type from the raw stack
  slot using the entry's engine context; apply the callable to the full ordered tuple of
  constructed values". This is that reading, written without reference to the
  implementation's order of evaluation; it is compared with \<open>applyFun\<close> below.
\<close>

fun constructLeftToRight ::
  "('e, 'c, 't, 'v, 'w) Runtime \<Rightarrow> 'e \<Rightarrow> 'c RenStack option \<Rightarrow> (nat \<times> 't) list \<Rightarrow> 'w \<Rightarrow>
   (failure + 'v list) \<times> 'w" where
  "constructLeftToRight P eng stack [] w = (Inr [], w)"
| "constructLeftToRight P eng stack ((I, T) # rest) w =
     (case REN_STACK_ARGUMENT stack I of
        Inl f \<Rightarrow> (Inl f, w)
      | Inr c \<Rightarrow>
          (case construct P eng T c w of
             (Inl f, w') \<Rightarrow> (Inl f, w')
           | (Inr v, w') \<Rightarrow>
               (case constructLeftToRight P eng stack rest w' of
                  (Inl f, w'') \<Rightarrow> (Inl f, w'')
                | (Inr vs, w'') \<Rightarrow> (Inr (v # vs), w''))))"

definition applyFun_leftToRight ::
  "('e, 'c, 't, 'v, 'w) Runtime \<Rightarrow> 't list \<Rightarrow> ('v, 'w) FunType \<Rightarrow> 'e \<Rightarrow>
   'c RenStack option \<Rightarrow> 'w \<Rightarrow> (failure + 'v) \<times> 'w" where
  "applyFun_leftToRight P Ts f eng stack w =
     (case constructLeftToRight P eng stack (enumerate 0 Ts) w of
        (Inl x, w') \<Rightarrow> (Inl x, w')
      | (Inr vs, w') \<Rightarrow> f vs w')"

subsection \<open>bounceShim\<close>

text \<open>
  The dispatcher of one signature. It locks the mutex, copies \<^verbatim>\<open>table[id]\<close> out, unlocks,
  applies the callable and stores the result's cell in the return slot. Nothing is
  caught: a failure of \<open>applyFun\<close> leaves before the store.
\<close>

definition bounceShim ::
  "('e, 'c, 't, 'v, 'w) Runtime \<Rightarrow> 't Signature \<Rightarrow> RenShimId \<Rightarrow> 'c RenStack option \<Rightarrow>
   ('e, 't, 'v, 'w) Process \<Rightarrow>
   (failure + RenResult) \<times> 'c RenStack option \<times> ('e, 't, 'v, 'w) Process" where
  "bounceShim P sg i stack s =
     (if extensionTablesMutex s then (Inl UndefinedBehaviour, stack, s)
      else
        (case vector_at (table s sg) i of
           Inl f \<Rightarrow> (Inl f, stack, s)
         | Inr entry \<Rightarrow>
             (case applyFun P (sig_Ts sg) (fun' entry) (engine entry) stack (world s) of
                (Inl f, w') \<Rightarrow> (Inl f, stack, s\<lparr>world := w'\<rparr>)
              | (Inr result, w') \<Rightarrow>
                  (case REN_STACK_RETURN_assign stack (cell P result) of
                     Inl f \<Rightarrow> (Inl f, stack, s\<lparr>world := w'\<rparr>)
                   | Inr stack' \<Rightarrow> (Inr REN_SUCCESS, stack', s\<lparr>world := w'\<rparr>)))))"

subsection \<open>The trampoline REN_STD_FUNCTION\<close>

text \<open>
  The body of the lambda, for the expansion numbered \<open>n\<close>. Its statics \<^verbatim>\<open>id\<close> and
  \<^verbatim>\<open>bouncer\<close> start as \<open>-1\<close> and null. While \<^verbatim>\<open>id\<close> is \<open>-1\<close> a call copies the two capture
  slots and returns \<^verbatim>\<open>REN_SHIM_INITIALIZED\<close>; otherwise it calls the bouncer.
\<close>

definition REN_STD_FUNCTION_call ::
  "('e, 'c, 't, 'v, 'w) Runtime \<Rightarrow> nat \<Rightarrow> 'c RenStack option \<Rightarrow> ('e, 't, 'v, 'w) Process \<Rightarrow>
   (failure + RenResult) \<times> 'c RenStack option \<times> ('e, 't, 'v, 'w) Process" where
  "REN_STD_FUNCTION_call P n stack s =
     (if shim_id (statics s n) \<noteq> - 1 then
        (case shim_bouncer (statics s n) of
           None \<Rightarrow> (Inl UndefinedBehaviour, stack, s)
         | Some bouncer \<Rightarrow> bounceShim P bouncer (shim_id (statics s n)) stack s)
      else
        (Inr REN_SHIM_INITIALIZED, stack,
         s\<lparr>statics := (statics s)
              (n := \<lparr>shim_id = shimIdToCapture s,
                     shim_bouncer = shimBouncerToCapture s\<rparr>)\<rparr>))"

fun callShim ::
  "('e, 'c, 't, 'v, 'w) Runtime \<Rightarrow> ('c, 'w) RenShimPointer \<Rightarrow> 'c RenStack option \<Rightarrow>
   ('e, 't, 'v, 'w) Process \<Rightarrow>
   (failure + RenResult) \<times> 'c RenStack option \<times> ('e, 't, 'v, 'w) Process" where
  "callShim P (REN_STD_FUNCTION n) stack s = REN_STD_FUNCTION_call P n stack s"
| "callShim P (HostShim h) stack s =
     (case h stack (world s) of (r, stack', w') \<Rightarrow> (r, stack', s\<lparr>world := w'\<rparr>))"

subsection \<open>The constructor of FunctionGenerator\<close>

text \<open>
  The \<^verbatim>\<open>lock_guard\<close> releases the mutex when the constructor is left, also by an
  exception; after a failure that ends the process nothing is released.
\<close>

definition unwind :: "failure \<Rightarrow> ('e, 't, 'v, 'w) Process \<Rightarrow> ('e, 't, 'v, 'w) Process" where
  "unwind x s = (if fatal x then s else s\<lparr>extensionTablesMutex := False\<rparr>)"

text \<open>
  The registration: lock, assert that the capture slots are empty, fill them with the
  table's size and the bouncer, call the shim with a null stack, throw unless it answers
  \<^verbatim>\<open>REN_SHIM_INITIALIZED\<close>, empty the slots, append the entry, finish the function value.
  The result is the cell of the function built. The assertions are taken as compiled in
  (no \<^verbatim>\<open>NDEBUG\<close>); the properties below that start from empty slots do not depend on it.
\<close>

definition FunctionGenerator ::
  "('e, 'c, 't, 'v, 'w) Runtime \<Rightarrow> 't Signature \<Rightarrow> 'e \<Rightarrow> Block \<Rightarrow> ('c, 'w) RenShimPointer \<Rightarrow>
   ('v, 'w) FunType \<Rightarrow> ('e, 't, 'v, 'w) Process \<Rightarrow> (failure + 'c) \<times> ('e, 't, 'v, 'w) Process" where
  "FunctionGenerator P sg eng spec shim f s =
     (if extensionTablesMutex s then (Inl UndefinedBehaviour, s)
      else
        let s1 = s\<lparr>extensionTablesMutex := True\<rparr> in
        if shimIdToCapture s1 \<noteq> - 1 then (Inl AssertionFailed, s1)
        else if shimBouncerToCapture s1 \<noteq> None then (Inl AssertionFailed, s1)
        else
          let s2 = s1\<lparr>shimIdToCapture := shimIdOfSize (length (table s1 sg)),
                      shimBouncerToCapture := Some sg\<rparr> in
          (case callShim P shim None s2 of
             (Inl x, _, s3) \<Rightarrow> (Inl x, unwind x s3)
           | (Inr r, _, s3) \<Rightarrow>
               if r \<noteq> REN_SHIM_INITIALIZED then
                 (Inl (Exception ''First shim call didn't return REN_SHIM_INITIALIZED''),
                  s3\<lparr>extensionTablesMutex := False\<rparr>)
               else
                 let s4 = s3\<lparr>shimIdToCapture := - 1, shimBouncerToCapture := None\<rparr>;
                     s5 = s4\<lparr>table := (table s4)
                            (sg := table s4 sg @ [\<lparr>engine = eng, fun' = f\<rparr>])\<rparr>
                 in
                 (case finishInit P eng spec shim (world s5) of
                    (Inl x, w') \<Rightarrow> (Inl x, unwind x (s5\<lparr>world := w'\<rparr>))
                  | (Inr c, w') \<Rightarrow>
                      (Inr c, s5\<lparr>world := w', extensionTablesMutex := False\<rparr>))))"

subsection \<open>Histories of the process\<close>

text \<open>
  What happens to the layer over the life of the process: the host registers callables,
  the runtime calls shims. A history is run from left to right; an exception is the
  caller's to handle and the history goes on, any other failure ends it (\<open>None\<close>).
\<close>

datatype ('e, 'c, 't, 'v, 'w) operation =
    Register "'t Signature" 'e Block "('c, 'w) RenShimPointer" "('v, 'w) FunType"
  | Invoke "('c, 'w) RenShimPointer" "'c RenStack option"

fun step ::
  "('e, 'c, 't, 'v, 'w) Runtime \<Rightarrow> ('e, 'c, 't, 'v, 'w) operation \<Rightarrow>
   ('e, 't, 'v, 'w) Process \<Rightarrow> failure option \<times> ('e, 't, 'v, 'w) Process" where
  "step P (Register sg eng spec shim f) s =
     (case FunctionGenerator P sg eng spec shim f s of
        (Inl x, s') \<Rightarrow> (Some x, s')
      | (Inr _, s') \<Rightarrow> (None, s'))"
| "step P (Invoke shim stack) s =
     (case callShim P shim stack s of
        (Inl x, _, s') \<Rightarrow> (Some x, s')
      | (Inr _, _, s') \<Rightarrow> (None, s'))"

fun run ::
  "('e, 'c, 't, 'v, 'w) Runtime \<Rightarrow> ('e, 'c, 't, 'v, 'w) operation list \<Rightarrow>
   ('e, 't, 'v, 'w) Process \<Rightarrow> ('e, 't, 'v, 'w) Process option" where
  "run P [] s = Some s"
| "run P (a # as) s =
     (case step P a s of
        (Some x, s') \<Rightarrow> if fatal x then None else run P as s'
      | (None, s') \<Rightarrow> run P as s')"

subsection \<open>A test harness\<close>

text \<open>
  Modelled from the spec: the runtime's value model is not among the sources. The harness
  stands for it in the scenarios: cells are integers or strings, constructing a value of
  a type from a cell of another type is a conversion error, and every construction and
  every call of a callable is logged in the host's state, so that their order shows.
\<close>

datatype HType = IntegerT | StringT

datatype HCell = IntegerCell int | StringCell string | FunctionCell Block | UnsetCell

datatype HEvent = Constructed HType HCell | Called string

fun hconstruct :: "nat \<Rightarrow> HType \<Rightarrow> HCell \<Rightarrow> HEvent list \<Rightarrow> (failure + HCell) \<times> HEvent list" where
  "hconstruct eng IntegerT (IntegerCell n) w =
     (Inr (IntegerCell n), w @ [Constructed IntegerT (IntegerCell n)])"
| "hconstruct eng StringT (StringCell x) w =
     (Inr (StringCell x), w @ [Constructed StringT (StringCell x)])"
| "hconstruct eng T c w = (Inl (Exception ''bad cast''), w @ [Constructed T c])"

text \<open>The two orders compilers use: as written, and last argument first.\<close>

definition left_to_right :: "'a list \<Rightarrow> 'a list" where
  "left_to_right xs = xs"

definition right_to_left :: "'a list \<Rightarrow> 'a list" where
  "right_to_left xs = rev xs"

definition harness ::
  "((nat \<times> HType) list \<Rightarrow> (nat \<times> HType) list) \<Rightarrow> (nat, HCell, HType, HCell, HEvent list) Runtime" where
  "harness order =
     \<lparr>construct = hconstruct,
      cell = (\<lambda>v. v),
      finishInit = (\<lambda>eng spec shim w. (Inr (FunctionCell spec), w)),
      argOrder = order\<rparr>"

text \<open>The callable \<^verbatim>\<open>[](Integer a, Integer b) { return a + b; }\<close> and a second one.\<close>

fun add_integers :: "(HCell, HEvent list) FunType" where
  "add_integers [IntegerCell a, IntegerCell b] w = (Inr (IntegerCell (a + b)), w @ [Called ''add''])"
| "add_integers vs w = (Inl UndefinedBehaviour, w)"

fun multiply_integers :: "(HCell, HEvent list) FunType" where
  "multiply_integers [IntegerCell a, IntegerCell b] w =
     (Inr (IntegerCell (a * b)), w @ [Called ''multiply''])"
| "multiply_integers vs w = (Inl UndefinedBehaviour, w)"

text \<open>A callable that throws: integer division, with the divisor zero refused.\<close>

fun divide_integers :: "(HCell, HEvent list) FunType" where
  "divide_integers [IntegerCell a, IntegerCell b] w =
     (if b = 0 then (Inl (Exception ''zero divide''), w @ [Called ''divide''])
      else (Inr (IntegerCell (a div b)), w @ [Called ''divide'']))"
| "divide_integers vs w = (Inl UndefinedBehaviour, w)"

definition integer_integer :: "HType Signature" where
  "integer_integer = \<lparr>sig_R = IntegerT, sig_Ts = [IntegerT, IntegerT]\<rparr>"

definition stack_of :: "HCell list \<Rightarrow> HCell RenStack option" where
  "stack_of cs = Some \<lparr>stack_return = UnsetCell, stack_arguments = cs\<rparr>"

text \<open>A shim written by hand that answers \<^verbatim>\<open>REN_SUCCESS\<close> to every call.\<close>

definition plain_shim :: "(HCell, HEvent list) RenShimPointer" where
  "plain_shim = HostShim (\<lambda>stack w. (Inr REN_SUCCESS, stack, w))"


text \<open>
  The states of the scenario "register the adder, then a multiplier of the same
  signature, each through its own trampoline", with the events logged so far.
\<close>

definition add_spec :: Block where
  "add_spec = ''a [integer!] b [integer!]''"

definition adder_registered :: "HEvent list \<Rightarrow> (nat, HType, HCell, HEvent list) Process" where
  "adder_registered w =
     \<lparr>extensionTablesMutex = False,
      shimIdToCapture = - 1,
      shimBouncerToCapture = None,
      table = (\<lambda>_. [])(integer_integer := [\<lparr>engine = 7, fun' = add_integers\<rparr>]),
      statics = (\<lambda>_. \<lparr>shim_id = - 1, shim_bouncer = None\<rparr>)
        (0 := \<lparr>shim_id = 0, shim_bouncer = Some integer_integer\<rparr>),
      world = w\<rparr>"

definition both_registered :: "HEvent list \<Rightarrow> (nat, HType, HCell, HEvent list) Process" where
  "both_registered w =
     \<lparr>extensionTablesMutex = False,
      shimIdToCapture = - 1,
      shimBouncerToCapture = None,
      table = (\<lambda>_. [])
        (integer_integer :=
           [\<lparr>engine = 7, fun' = add_integers\<rparr>, \<lparr>engine = 7, fun' = multiply_integers\<rparr>]),
      statics = (\<lambda>_. \<lparr>shim_id = - 1, shim_bouncer = None\<rparr>)
        (0 := \<lparr>shim_id = 0, shim_bouncer = Some integer_integer\<rparr>,
         1 := \<lparr>shim_id = 1, shim_bouncer = Some integer_integer\<rparr>),
      world = w\<rparr>"

definition add_events :: "HEvent list" where
  "add_events =
     [Constructed IntegerT (IntegerCell 2), Constructed IntegerT (IntegerCell 3), Called ''add'']"

definition multiply_events :: "HEvent list" where
  "multiply_events =
     [Constructed IntegerT (IntegerCell 2), Constructed IntegerT (IntegerCell 3),
      Called ''multiply'']"

definition divider_registered :: "HEvent list \<Rightarrow> (nat, HType, HCell, HEvent list) Process" where
  "divider_registered w =
     \<lparr>extensionTablesMutex = False,
      shimIdToCapture = - 1,
      shimBouncerToCapture = None,
      table = (\<lambda>_. [])(integer_integer := [\<lparr>engine = 7, fun' = divide_integers\<rparr>]),
      statics = (\<lambda>_. \<lparr>shim_id = - 1, shim_bouncer = None\<rparr>)
        (0 := \<lparr>shim_id = 0, shim_bouncer = Some integer_integer\<rparr>),
      world = w\<rparr>"

section \<open>Properties\<close>

subsection \<open>What each function leaves unchanged\<close>

lemma shimIdOfSize_small: "n < 2 ^ 31 \<Longrightarrow> shimIdOfSize n = int n"
  by (simp add: shimIdOfSize_def)

lemma bounceShim_fields:
  assumes "bounceShim P sg i stack s = (r, stack', s')"
  shows "table s' = table s" and "statics s' = statics s"
    and "extensionTablesMutex s' = extensionTablesMutex s"
    and "shimIdToCapture s' = shimIdToCapture s"
    and "shimBouncerToCapture s' = shimBouncerToCapture s"
  using assms
  by (auto simp: bounceShim_def split: if_splits sum.splits prod.splits)

lemma callShim_fields:
  assumes "callShim P shim stack s = (r, stack', s')"
  shows "table s' = table s"
    and "extensionTablesMutex s' = extensionTablesMutex s"
    and "shimIdToCapture s' = shimIdToCapture s"
    and "shimBouncerToCapture s' = shimBouncerToCapture s"
  using assms
  by (cases shim;
      auto simp: REN_STD_FUNCTION_call_def split: prod.splits if_splits option.splits
           dest: bounceShim_fields)+

lemma callShim_identified:
  assumes "callShim P shim stack s = (r, stack', s')" and "shim_id (statics s t) \<noteq> - 1"
  shows "statics s' t = statics s t"
  using assms
  by (cases shim)
     (auto simp: REN_STD_FUNCTION_call_def split: prod.splits if_splits option.splits
           dest: bounceShim_fields)

lemma callShim_other:
  assumes "callShim P shim stack s = (r, stack', s')" and "shim \<noteq> REN_STD_FUNCTION t"
  shows "statics s' t = statics s t"
  using assms
  by (cases shim)
     (auto simp: REN_STD_FUNCTION_call_def split: prod.splits if_splits option.splits
           dest: bounceShim_fields)


lemma unwind_fields:
  "table (unwind x s) = table s" "statics (unwind x s) = statics s"
  "shimIdToCapture (unwind x s) = shimIdToCapture s"
  "shimBouncerToCapture (unwind x s) = shimBouncerToCapture s"
  "world (unwind x s) = world s"
  by (simp_all add: unwind_def)

lemma FunctionGenerator_success:
  assumes "FunctionGenerator P sg eng spec shim f s = (Inr c, s')"
  shows "\<not> extensionTablesMutex s" and "shimIdToCapture s = - 1"
    and "shimBouncerToCapture s = None"
    and "table s' = (table s)(sg := table s sg @ [\<lparr>engine = eng, fun' = f\<rparr>])"
    and "\<not> extensionTablesMutex s'" and "shimIdToCapture s' = - 1"
    and "shimBouncerToCapture s' = None"
  using assms
  by (auto simp: FunctionGenerator_def Let_def
           split: if_splits prod.splits sum.splits dest!: callShim_fields(1))

lemma FunctionGenerator_captured:
  assumes "FunctionGenerator P sg eng spec (REN_STD_FUNCTION t) f s = (Inr c, s')"
    and "shim_id (statics s t) = - 1"
  shows "statics s' t = \<lparr>shim_id = shimIdOfSize (length (table s sg)), shim_bouncer = Some sg\<rparr>"
  using assms
  by (auto simp: FunctionGenerator_def Let_def REN_STD_FUNCTION_call_def
           split: if_splits prod.splits sum.splits)

lemma FunctionGenerator_table:
  assumes "FunctionGenerator P sg eng spec shim f s = (r, s')"
  shows "table s' = table s \<or> table s' = (table s)(sg := table s sg @ [\<lparr>engine = eng, fun' = f\<rparr>])"
  using assms
  by (auto simp: FunctionGenerator_def Let_def unwind_fields
           split: if_splits prod.splits sum.splits dest!: callShim_fields(1))

lemma FunctionGenerator_identified:
  assumes "FunctionGenerator P sg eng spec shim f s = (r, s')" and "shim_id (statics s t) \<noteq> - 1"
  shows "statics s' t = statics s t"
proof -
  have *: "statics s3 t = statics s t"
    if "callShim P shim None
          (s\<lparr>extensionTablesMutex := True,
             shimIdToCapture := shimIdOfSize (length (table s sg)),
             shimBouncerToCapture := Some sg\<rparr>) = (q, st, s3)" for q st s3
    using callShim_identified [OF that, of t] assms(2) by simp
  show ?thesis
    using assms(1)
    by (auto simp: FunctionGenerator_def Let_def unwind_fields
             split: if_splits prod.splits sum.splits dest!: *)
qed

subsection \<open>Building the arguments\<close>

lemma those_map_Some:
  "(\<And>x. x \<in> set xs \<Longrightarrow> g x \<noteq> None) \<Longrightarrow> those (map g xs) = Some (map (\<lambda>x. the (g x)) xs)"
proof (induction xs)
  case Nil
  then show ?case by simp
next
  case (Cons a xs)
  then obtain y where "g a = Some y" by auto
  with Cons show ?case by simp
qed

lemma those_map_Some_id: "those (map Some vs) = Some vs"
  by (induction vs) simp_all

text \<open>
  After a run of \<open>constructArgs\<close> that built every argument, each index of the run holds a
  value that \<open>construct\<close> made from the slot of that index with the type of that index,
  and the other indices hold what they held.
\<close>

lemma constructArgs_built:
  assumes "constructArgs P eng stack ord built w = (Inr m, w1)" and "distinct (map fst ord)"
  shows "(\<forall>(I, T) \<in> set ord. \<exists>c wa wb v. REN_STACK_ARGUMENT stack I = Inr c \<and>
            construct P eng T c wa = (Inr v, wb) \<and> m I = Some v)
       \<and> (\<forall>I. I \<notin> fst ` set ord \<longrightarrow> m I = built I)"
  using assms
proof (induction ord arbitrary: built w)
  case Nil
  then show ?case by simp
next
  case (Cons a rest)
  obtain I T where a: "a = (I, T)" by (cases a)
  from Cons.prems(1) obtain c where c: "REN_STACK_ARGUMENT stack I = Inr c"
    by (auto simp: a split: sum.splits)
  from Cons.prems(1) c obtain v w' where v: "construct P eng T c w = (Inr v, w')"
    and rest: "constructArgs P eng stack rest (built(I \<mapsto> v)) w' = (Inr m, w1)"
    by (auto simp: a split: sum.splits prod.splits)
  from Cons.prems(2) have d: "distinct (map fst rest)" and notin: "I \<notin> fst ` set rest"
    by (auto simp: a)
  note IH = Cons.IH [OF rest d]
  from IH notin have "m I = Some v" by simp
  with c v IH show ?case by (auto simp: a)
qed

lemma distinct_fst_of_order:
  assumes "evaluation_order ord written" and "distinct (map fst written)"
  shows "distinct (map fst ord)"
proof -
  from assms(2) have "inj_on fst (set written)" by (simp add: distinct_map)
  with assms(1) show ?thesis by (simp add: evaluation_order_def distinct_map)
qed

lemma distinct_fst_enumerate: "distinct (map fst (enumerate n xs))"
  by simp

lemma in_set_enumerate_0: "I < length Ts \<Longrightarrow> (I, Ts ! I) \<in> set (enumerate 0 Ts)"
  by (simp add: in_set_enumerate_eq)

lemma applyFunImpl_built:
  assumes order: "evaluation_order (argOrder P (enumerate 0 Ts)) (enumerate 0 Ts)"
    and args: "constructArgs P eng stack (argOrder P (enumerate 0 Ts)) Map.empty w = (Inr built, w1)"
  shows "applyFun P Ts f eng stack w = f (map (\<lambda>I. the (built I)) [0..<length Ts]) w1"
    and "\<forall>I<length Ts. \<exists>c wa wb. REN_STACK_ARGUMENT stack I = Inr c \<and>
           construct P eng (Ts ! I) c wa = (Inr (the (built I)), wb)"
proof -
  have d: "distinct (map fst (argOrder P (enumerate 0 Ts)))"
    using distinct_fst_of_order [OF order distinct_fst_enumerate] .
  note b = constructArgs_built [OF args d]
  have s: "set (argOrder P (enumerate 0 Ts)) = set (enumerate 0 Ts)"
    using order by (simp add: evaluation_order_def)
  have all: "\<And>x. x \<in> set (enumerate 0 Ts) \<Longrightarrow> (case x of (I, T) \<Rightarrow> built I) \<noteq> None"
    using b s by fastforce
  have "those (map (\<lambda>(I, T). built I) (enumerate 0 Ts)) =
          Some (map (\<lambda>x. the (case x of (I, T) \<Rightarrow> built I)) (enumerate 0 Ts))"
    using all by (rule those_map_Some)
  also have "map (\<lambda>x. the (case x of (I, T) \<Rightarrow> built I)) (enumerate 0 Ts) =
          map (\<lambda>I. the (built I)) [0..<length Ts]"
    by (rule nth_equalityI) (simp_all add: nth_enumerate_eq)
  finally show "applyFun P Ts f eng stack w = f (map (\<lambda>I. the (built I)) [0..<length Ts]) w1"
    by (simp add: applyFun_def applyFunImpl_def args)
  show "\<forall>I<length Ts. \<exists>c wa wb. REN_STACK_ARGUMENT stack I = Inr c \<and>
           construct P eng (Ts ! I) c wa = (Inr (the (built I)), wb)"
  proof (intro allI impI)
    fix I assume "I < length Ts"
    then have "(I, Ts ! I) \<in> set (argOrder P (enumerate 0 Ts))"
      using s in_set_enumerate_0 by blast
    with b show "\<exists>c wa wb. REN_STACK_ARGUMENT stack I = Inr c \<and>
           construct P eng (Ts ! I) c wa = (Inr (the (built I)), wb)"
      by fastforce
  qed
qed

lemma applyFun_construct_fails:
  assumes "constructArgs P eng stack (argOrder P (enumerate 0 Ts)) Map.empty w = (Inl x, w1)"
  shows "applyFun P Ts f eng stack w = (Inl x, w1)"
  using assms by (simp add: applyFun_def applyFunImpl_def)

text \<open>Run as written, \<open>constructArgs\<close> is the left-to-right construction.\<close>

lemma constructLeftToRight_length:
  "constructLeftToRight P eng stack xs w = (Inr vs, w1) \<Longrightarrow> length vs = length xs"
  by (induction xs arbitrary: vs w)
     (auto split: sum.splits prod.splits)

lemma constructArgs_leftToRight:
  "distinct (map fst xs) \<Longrightarrow>
   constructArgs P eng stack xs built w =
     (case constructLeftToRight P eng stack xs w of
        (Inl x, w1) \<Rightarrow> (Inl x, w1)
      | (Inr vs, w1) \<Rightarrow> (Inr (built ++ map_of (zip (map fst xs) vs)), w1))"
proof (induction xs arbitrary: built w)
  case Nil
  then show ?case by simp
next
  case (Cons a rest)
  obtain I T where a: "a = (I, T)" by (cases a)
  from Cons.prems have d: "distinct (map fst rest)" and notin: "I \<notin> set (map fst rest)"
    by (auto simp: a)
  have upd: "built(I \<mapsto> v) ++ map_of (zip (map fst rest) vs) =
             built ++ (map_of (zip (map fst rest) vs))(I \<mapsto> v)" for v vs
  proof -
    have "I \<notin> fst ` set (zip (map fst rest) vs)"
      using notin by (auto dest: set_zip_leftD)
    then have "map_of (zip (map fst rest) vs) I = None"
      by (simp add: map_of_eq_None_iff)
    then show ?thesis by (auto simp: map_add_def fun_eq_iff split: option.splits)
  qed
  show ?case
    by (auto simp: a Cons.IH [OF d] upd split: sum.splits prod.splits)
qed

lemma applyFun_as_written:
  assumes "argOrder P (enumerate 0 Ts) = enumerate 0 Ts"
  shows "applyFun P Ts f eng stack w = applyFun_leftToRight P Ts f eng stack w"
proof (cases "constructLeftToRight P eng stack (enumerate 0 Ts) w")
  case (Pair r w1)
  show ?thesis
  proof (cases r)
    case (Inl x)
    with Pair show ?thesis
      by (simp add: applyFun_def applyFunImpl_def applyFun_leftToRight_def assms
            constructArgs_leftToRight distinct_fst_enumerate)
  next
    case (Inr vs)
    with Pair have len: "length vs = length Ts"
      using constructLeftToRight_length [of P eng stack "enumerate 0 Ts" w vs w1] by simp
    let ?m = "Map.empty ++ map_of (zip (map fst (enumerate 0 Ts)) vs)"
    have "map (\<lambda>(I, T). ?m I) (enumerate 0 Ts) = map Some vs"
    proof (rule nth_equalityI)
      show "length (map (\<lambda>(I, T). ?m I) (enumerate 0 Ts)) = length (map Some vs)"
        by (simp add: len)
    next
      fix j assume "j < length (map (\<lambda>(I, T). ?m I) (enumerate 0 Ts))"
      then have j: "j < length Ts" by simp
      then have "map_of (zip [0..<length Ts] vs) ([0..<length Ts] ! j) = Some (vs ! j)"
        using len by (intro map_of_zip_nth) auto
      with j show "map (\<lambda>(I, T). ?m I) (enumerate 0 Ts) ! j = map Some vs ! j"
        by (simp add: nth_enumerate_eq len)
    qed
    then have "those (map (\<lambda>(I, T). ?m I) (enumerate 0 Ts)) = Some vs"
      by (simp only: those_map_Some_id)
    with Pair Inr show ?thesis
      by (simp add: applyFun_def applyFunImpl_def applyFun_leftToRight_def assms
            constructArgs_leftToRight distinct_fst_enumerate)
  qed
qed

subsection \<open>The scenario, evaluated\<close>

lemma register_adder:
  "FunctionGenerator (harness order) integer_integer 7 add_spec (REN_STD_FUNCTION 0) add_integers
     (startup []) = (Inr (FunctionCell add_spec), adder_registered [])"
  by (simp add: FunctionGenerator_def Let_def REN_STD_FUNCTION_call_def startup_def harness_def
        shimIdOfSize_def adder_registered_def)

lemma register_multiplier:
  "FunctionGenerator (harness order) integer_integer 7 add_spec (REN_STD_FUNCTION 1)
     multiply_integers (adder_registered w) = (Inr (FunctionCell add_spec), both_registered w)"
  by (simp add: FunctionGenerator_def Let_def REN_STD_FUNCTION_call_def harness_def
        shimIdOfSize_def adder_registered_def both_registered_def fun_upd_twist)

lemma apply_adder:
  "applyFun (harness left_to_right) [IntegerT, IntegerT] add_integers 7
     (stack_of [IntegerCell 2, IntegerCell 3]) w = (Inr (IntegerCell 5), w @ add_events)"
  by (simp add: applyFun_def applyFunImpl_def harness_def left_to_right_def stack_of_def
        add_events_def)

lemma apply_multiplier:
  "applyFun (harness left_to_right) [IntegerT, IntegerT] multiply_integers 7
     (stack_of [IntegerCell 2, IntegerCell 3]) w = (Inr (IntegerCell 6), w @ multiply_events)"
  by (simp add: applyFun_def applyFunImpl_def harness_def left_to_right_def stack_of_def
        multiply_events_def)

lemma invoke_adder_once:
  "callShim (harness left_to_right) (REN_STD_FUNCTION 0)
     (stack_of [IntegerCell 2, IntegerCell 3]) (adder_registered w) =
   (Inr REN_SUCCESS,
    Some \<lparr>stack_return = IntegerCell 5, stack_arguments = [IntegerCell 2, IntegerCell 3]\<rparr>,
    adder_registered (w @ add_events))"
  by (simp add: REN_STD_FUNCTION_call_def bounceShim_def vector_at_def apply_adder
        adder_registered_def integer_integer_def)
     (simp add: stack_of_def harness_def)

lemma invoke_adder_both:
  "callShim (harness left_to_right) (REN_STD_FUNCTION 0)
     (stack_of [IntegerCell 2, IntegerCell 3]) (both_registered w) =
   (Inr REN_SUCCESS,
    Some \<lparr>stack_return = IntegerCell 5, stack_arguments = [IntegerCell 2, IntegerCell 3]\<rparr>,
    both_registered (w @ add_events))"
  by (simp add: REN_STD_FUNCTION_call_def bounceShim_def vector_at_def apply_adder
        both_registered_def integer_integer_def)
     (simp add: stack_of_def harness_def)

lemma invoke_multiplier_both:
  "callShim (harness left_to_right) (REN_STD_FUNCTION 1)
     (stack_of [IntegerCell 2, IntegerCell 3]) (both_registered w) =
   (Inr REN_SUCCESS,
    Some \<lparr>stack_return = IntegerCell 6, stack_arguments = [IntegerCell 2, IntegerCell 3]\<rparr>,
    both_registered (w @ multiply_events))"
  by (simp add: REN_STD_FUNCTION_call_def bounceShim_def vector_at_def apply_multiplier
        both_registered_def integer_integer_def)
     (simp add: stack_of_def harness_def)

subsection \<open>The dispatcher\<close>

text \<open>
  Claim C1. Let \<open>i\<close> be an id of the signature's table (at least \<open>0\<close>, below its size),
  the mutex free, the stack present, and let the construction of the arguments from the
  stack's slots with the entry's engine give the values \<open>built\<close> and the entry's
  callable, applied to them in positional order, return \<open>result\<close>. Then \<open>bounceShim\<close>
  returns \<^verbatim>\<open>REN_SUCCESS\<close>, the stack is the one given with \<open>result\<close>'s cell in the return
  slot, and nothing of the process has changed but what the constructions and the
  callable did to the host's state. The witness is the scenario of the specification:
  the integer adder, registered and called on the stack \<open>(2, 3)\<close>, leaves \<open>5\<close> in the
  return slot.
\<close>

theorem bounceShim_applies_callable:
  assumes free: "\<not> extensionTablesMutex s"
    and lower: "0 \<le> i" and upper: "i < int (length (table s sg))"
    and order: "evaluation_order (argOrder P (enumerate 0 (sig_Ts sg))) (enumerate 0 (sig_Ts sg))"
    and args: "constructArgs P (engine (table s sg ! nat i)) (Some st)
                 (argOrder P (enumerate 0 (sig_Ts sg))) Map.empty (world s) = (Inr built, w1)"
    and call: "fun' (table s sg ! nat i) (map (\<lambda>I. the (built I)) [0..<length (sig_Ts sg)]) w1 =
                 (Inr result, w2)"
  shows "bounceShim P sg i (Some st) s =
           (Inr REN_SUCCESS, Some (st\<lparr>stack_return := cell P result\<rparr>), s\<lparr>world := w2\<rparr>)"
proof -
  have "applyFun P (sig_Ts sg) (fun' (table s sg ! nat i)) (engine (table s sg ! nat i))
          (Some st) (world s) = (Inr result, w2)"
    using applyFunImpl_built(1) [OF order args] call by simp
  then show ?thesis
    using free lower upper by (simp add: bounceShim_def vector_at_def)
qed

theorem bounceShim_applies_callable_witness:
  "FunctionGenerator (harness left_to_right) integer_integer 7 add_spec (REN_STD_FUNCTION 0)
     add_integers (startup []) = (Inr (FunctionCell add_spec), adder_registered [])
   \<and> bounceShim (harness left_to_right) integer_integer 0
       (Some \<lparr>stack_return = UnsetCell, stack_arguments = [IntegerCell 2, IntegerCell 3]\<rparr>)
       (adder_registered []) =
     (Inr REN_SUCCESS,
      Some \<lparr>stack_return = IntegerCell 5, stack_arguments = [IntegerCell 2, IntegerCell 3]\<rparr>,
      adder_registered add_events)"
proof -
  let ?P = "harness left_to_right"
  let ?s = "adder_registered []"
  let ?st = "\<lparr>stack_return = UnsetCell, stack_arguments = [IntegerCell 2, IntegerCell 3]\<rparr>"
  let ?built = "[0 \<mapsto> IntegerCell 2, Suc 0 \<mapsto> IntegerCell 3]"
  have free: "\<not> extensionTablesMutex ?s" by (simp add: adder_registered_def)
  have lower: "(0::int) \<le> 0" by simp
  have upper: "0 < int (length (table ?s integer_integer))" by (simp add: adder_registered_def)
  have order: "evaluation_order (argOrder ?P (enumerate 0 (sig_Ts integer_integer)))
                 (enumerate 0 (sig_Ts integer_integer))"
    by (simp add: evaluation_order_def harness_def left_to_right_def integer_integer_def)
  have args: "constructArgs ?P (engine (table ?s integer_integer ! nat 0)) (Some ?st)
                (argOrder ?P (enumerate 0 (sig_Ts integer_integer))) Map.empty (world ?s) =
              (Inr ?built,
               [Constructed IntegerT (IntegerCell 2), Constructed IntegerT (IntegerCell 3)])"
    by (simp add: adder_registered_def harness_def left_to_right_def integer_integer_def)
  have call: "fun' (table ?s integer_integer ! nat 0)
                (map (\<lambda>I. the (?built I)) [0..<length (sig_Ts integer_integer)])
                [Constructed IntegerT (IntegerCell 2), Constructed IntegerT (IntegerCell 3)] =
              (Inr (IntegerCell 5), add_events)"
    by (simp add: adder_registered_def integer_integer_def add_events_def upt_rec)
  have fin: "?s\<lparr>world := add_events\<rparr> = adder_registered add_events"
    by (simp add: adder_registered_def)
  show ?thesis
    using bounceShim_applies_callable [OF free lower upper order args call] register_adder
    by (simp add: fin harness_def)
qed

text \<open>
  Claim C3 says that the arguments are constructed strictly from left to right. The
  header writes the constructions as the arguments of one call, \<^verbatim>\<open>fun(construct(...)...)\<close>,
  and C++ does not fix the order in which the arguments of a call are evaluated. On an
  implementation that evaluates the last argument first, the adder called on the stack
  \<open>(2, 3)\<close> constructs the value of slot 1 before that of slot 0, which the
  left-to-right reading of the specification does not do.
\<close>

theorem arguments_left_to_right_counterexample:
  "applyFun (harness right_to_left) [IntegerT, IntegerT] add_integers 7
     (stack_of [IntegerCell 2, IntegerCell 3]) [] =
     (Inr (IntegerCell 5),
      [Constructed IntegerT (IntegerCell 3), Constructed IntegerT (IntegerCell 2), Called ''add''])
   \<and> applyFun_leftToRight (harness right_to_left) [IntegerT, IntegerT] add_integers 7
     (stack_of [IntegerCell 2, IntegerCell 3]) [] =
     (Inr (IntegerCell 5),
      [Constructed IntegerT (IntegerCell 2), Constructed IntegerT (IntegerCell 3), Called ''add''])
   \<and> applyFun (harness right_to_left) [IntegerT, IntegerT] add_integers 7
       (stack_of [IntegerCell 2, IntegerCell 3]) [] \<noteq>
     applyFun_leftToRight (harness right_to_left) [IntegerT, IntegerT] add_integers 7
       (stack_of [IntegerCell 2, IntegerCell 3]) []"
  by (simp add: applyFun_def applyFunImpl_def applyFun_leftToRight_def harness_def
        right_to_left_def stack_of_def)

text \<open>
  Claim C3, amended. Whatever order the implementation evaluates the arguments in (any
  arrangement of the \<open>k\<close> argument expressions): if all \<open>k\<close> constructions succeed, the
  value of each position was constructed from the stack slot of that position, with the
  type of that position and the entry's engine, and the callable is applied after all of
  them, to the values in positional order; if a construction fails, the call fails with
  that failure and the callable is not applied. When the implementation evaluates the
  arguments as they are written, the invocation is the left-to-right one of the
  specification.
\<close>

theorem arguments_constructed_by_position:
  assumes order: "evaluation_order (argOrder P (enumerate 0 Ts)) (enumerate 0 Ts)"
  shows "(constructArgs P eng stack (argOrder P (enumerate 0 Ts)) Map.empty w = (Inr built, w1) \<longrightarrow>
            (\<forall>I<length Ts. \<exists>c wa wb. REN_STACK_ARGUMENT stack I = Inr c \<and>
                construct P eng (Ts ! I) c wa = (Inr (the (built I)), wb))
            \<and> applyFun P Ts f eng stack w = f (map (\<lambda>I. the (built I)) [0..<length Ts]) w1)
       \<and> (constructArgs P eng stack (argOrder P (enumerate 0 Ts)) Map.empty w = (Inl x, w1) \<longrightarrow>
            applyFun P Ts f eng stack w = (Inl x, w1))
       \<and> (argOrder P (enumerate 0 Ts) = enumerate 0 Ts \<longrightarrow>
            applyFun P Ts f eng stack w = applyFun_leftToRight P Ts f eng stack w)"
proof (intro conjI impI)
  assume args: "constructArgs P eng stack (argOrder P (enumerate 0 Ts)) Map.empty w = (Inr built, w1)"
  show "\<forall>I<length Ts. \<exists>c wa wb. REN_STACK_ARGUMENT stack I = Inr c \<and>
          construct P eng (Ts ! I) c wa = (Inr (the (built I)), wb)"
    using applyFunImpl_built(2) [OF order args] .
  show "applyFun P Ts f eng stack w = f (map (\<lambda>I. the (built I)) [0..<length Ts]) w1"
    using applyFunImpl_built(1) [OF order args] .
next
  assume "constructArgs P eng stack (argOrder P (enumerate 0 Ts)) Map.empty w = (Inl x, w1)"
  then show "applyFun P Ts f eng stack w = (Inl x, w1)"
    by (rule applyFun_construct_fails)
next
  assume "argOrder P (enumerate 0 Ts) = enumerate 0 Ts"
  then show "applyFun P Ts f eng stack w = applyFun_leftToRight P Ts f eng stack w"
    by (rule applyFun_as_written)
qed

theorem arguments_constructed_by_position_witness:
  "(\<exists>c wa wb.
       REN_STACK_ARGUMENT (stack_of [IntegerCell 2, IntegerCell 3]) 1 = Inr c \<and>
       construct (harness right_to_left) 7 ([IntegerT, IntegerT] ! 1) c wa =
         (Inr (the ([Suc 0 \<mapsto> IntegerCell 3, 0 \<mapsto> IntegerCell 2] 1)), wb))
   \<and> applyFun (harness right_to_left) [IntegerT, IntegerT] add_integers 7
       (stack_of [IntegerCell 2, IntegerCell 3]) [] =
     add_integers [IntegerCell 2, IntegerCell 3]
       [Constructed IntegerT (IntegerCell 3), Constructed IntegerT (IntegerCell 2)]
   \<and> applyFun (harness right_to_left) [IntegerT, IntegerT] add_integers 7
       (stack_of [StringCell ''two'', UnsetCell]) [] =
     (Inl (Exception ''bad cast''), [Constructed IntegerT UnsetCell])
   \<and> applyFun (harness left_to_right) [IntegerT, IntegerT] add_integers 7
       (stack_of [StringCell ''two'', UnsetCell]) [] =
     applyFun_leftToRight (harness left_to_right) [IntegerT, IntegerT] add_integers 7
       (stack_of [StringCell ''two'', UnsetCell]) []"
proof -
  let ?R = "harness right_to_left"
  let ?L = "harness left_to_right"
  let ?Ts = "[IntegerT, IntegerT]"
  have orderR: "evaluation_order (argOrder ?R (enumerate 0 ?Ts)) (enumerate 0 ?Ts)"
    by (auto simp: evaluation_order_def harness_def right_to_left_def)
  have orderL: "evaluation_order (argOrder ?L (enumerate 0 ?Ts)) (enumerate 0 ?Ts)"
    by (simp add: evaluation_order_def harness_def left_to_right_def)
  have good: "constructArgs ?R 7 (stack_of [IntegerCell 2, IntegerCell 3])
                (argOrder ?R (enumerate 0 ?Ts)) Map.empty [] =
              (Inr [Suc 0 \<mapsto> IntegerCell 3, 0 \<mapsto> IntegerCell 2],
               [Constructed IntegerT (IntegerCell 3), Constructed IntegerT (IntegerCell 2)])"
    by (simp add: harness_def right_to_left_def stack_of_def)
  have bad: "constructArgs ?R 7 (stack_of [StringCell ''two'', UnsetCell])
               (argOrder ?R (enumerate 0 ?Ts)) Map.empty [] =
             (Inl (Exception ''bad cast''), [Constructed IntegerT UnsetCell])"
    by (simp add: harness_def right_to_left_def stack_of_def)
  have written: "argOrder ?L (enumerate 0 ?Ts) = enumerate 0 ?Ts"
    by (simp add: harness_def left_to_right_def)
  have one: "(1::nat) < length ?Ts" by simp
  have vals: "map (\<lambda>I. the ([Suc 0 \<mapsto> IntegerCell 3, 0 \<mapsto> IntegerCell 2] I)) [0..<length ?Ts] =
              [IntegerCell 2, IntegerCell 3]"
    by (simp add: upt_rec)
  from arguments_constructed_by_position [OF orderR,
      where eng = 7 and stack = "stack_of [IntegerCell 2, IntegerCell 3]" and w = "[]"
        and built = "[Suc 0 \<mapsto> IntegerCell 3, 0 \<mapsto> IntegerCell 2]" and f = add_integers] good
  have a: "(\<exists>c wa wb.
       REN_STACK_ARGUMENT (stack_of [IntegerCell 2, IntegerCell 3]) 1 = Inr c \<and>
       construct ?R 7 (?Ts ! 1) c wa =
         (Inr (the ([Suc 0 \<mapsto> IntegerCell 3, 0 \<mapsto> IntegerCell 2] 1)), wb))
     \<and> applyFun ?R ?Ts add_integers 7 (stack_of [IntegerCell 2, IntegerCell 3]) [] =
       add_integers [IntegerCell 2, IntegerCell 3]
         [Constructed IntegerT (IntegerCell 3), Constructed IntegerT (IntegerCell 2)]"
    unfolding vals using one by blast
  from arguments_constructed_by_position [OF orderR,
      where eng = 7 and stack = "stack_of [StringCell ''two'', UnsetCell]" and w = "[]"
        and f = add_integers] bad
  have b: "applyFun ?R ?Ts add_integers 7 (stack_of [StringCell ''two'', UnsetCell]) [] =
           (Inl (Exception ''bad cast''), [Constructed IntegerT UnsetCell])"
    by blast
  from arguments_constructed_by_position [OF orderL,
      where eng = 7 and stack = "stack_of [StringCell ''two'', UnsetCell]" and w = "[]"
        and f = add_integers] written
  have c: "applyFun ?L ?Ts add_integers 7 (stack_of [StringCell ''two'', UnsetCell]) [] =
           applyFun_leftToRight ?L ?Ts add_integers 7 (stack_of [StringCell ''two'', UnsetCell]) []"
    by blast
  from a b c show ?thesis by blast
qed

text \<open>
  Claim C4. Let \<open>i\<close> be an id of the signature's table and the mutex free. If the
  construction of the arguments fails, \<open>bounceShim\<close> fails with that failure, the stack
  is returned as it was given (the return slot is not written), and the host's state is
  the one the constructions left: the callable, which the construction does not
  mention, has not run. If the constructions succeed and the callable fails, \<open>bounceShim\<close>
  fails with the callable's failure and the stack is again as it was given.
\<close>

theorem bounceShim_failure_propagates:
  assumes free: "\<not> extensionTablesMutex s"
    and lower: "0 \<le> i" and upper: "i < int (length (table s sg))"
    and order: "evaluation_order (argOrder P (enumerate 0 (sig_Ts sg))) (enumerate 0 (sig_Ts sg))"
  shows "(constructArgs P (engine (table s sg ! nat i)) stack
            (argOrder P (enumerate 0 (sig_Ts sg))) Map.empty (world s) = (Inl x, w1) \<longrightarrow>
          bounceShim P sg i stack s = (Inl x, stack, s\<lparr>world := w1\<rparr>))
       \<and> (constructArgs P (engine (table s sg ! nat i)) stack
            (argOrder P (enumerate 0 (sig_Ts sg))) Map.empty (world s) = (Inr built, w1) \<and>
          fun' (table s sg ! nat i) (map (\<lambda>I. the (built I)) [0..<length (sig_Ts sg)]) w1 =
            (Inl x, w2) \<longrightarrow>
          bounceShim P sg i stack s = (Inl x, stack, s\<lparr>world := w2\<rparr>))"
proof (intro conjI impI)
  assume "constructArgs P (engine (table s sg ! nat i)) stack
            (argOrder P (enumerate 0 (sig_Ts sg))) Map.empty (world s) = (Inl x, w1)"
  from applyFun_construct_fails [OF this]
  show "bounceShim P sg i stack s = (Inl x, stack, s\<lparr>world := w1\<rparr>)"
    using free lower upper by (simp add: bounceShim_def vector_at_def)
next
  assume "constructArgs P (engine (table s sg ! nat i)) stack
            (argOrder P (enumerate 0 (sig_Ts sg))) Map.empty (world s) = (Inr built, w1) \<and>
          fun' (table s sg ! nat i) (map (\<lambda>I. the (built I)) [0..<length (sig_Ts sg)]) w1 =
            (Inl x, w2)"
  then have "applyFun P (sig_Ts sg) (fun' (table s sg ! nat i)) (engine (table s sg ! nat i))
               stack (world s) = (Inl x, w2)"
    using applyFunImpl_built(1) [OF order] by simp
  then show "bounceShim P sg i stack s = (Inl x, stack, s\<lparr>world := w2\<rparr>)"
    using free lower upper by (simp add: bounceShim_def vector_at_def)
qed

theorem bounceShim_failure_propagates_witness:
  "bounceShim (harness left_to_right) integer_integer 0
     (stack_of [IntegerCell 6, StringCell ''three'']) (divider_registered []) =
     (Inl (Exception ''bad cast''), stack_of [IntegerCell 6, StringCell ''three''],
      divider_registered
        [Constructed IntegerT (IntegerCell 6), Constructed IntegerT (StringCell ''three'')])
   \<and> bounceShim (harness left_to_right) integer_integer 0
     (stack_of [IntegerCell 6, IntegerCell 0]) (divider_registered []) =
     (Inl (Exception ''zero divide''), stack_of [IntegerCell 6, IntegerCell 0],
      divider_registered
        [Constructed IntegerT (IntegerCell 6), Constructed IntegerT (IntegerCell 0),
         Called ''divide''])"
proof -
  let ?P = "harness left_to_right"
  let ?s = "divider_registered []"
  let ?bad = "stack_of [IntegerCell 6, StringCell ''three'']"
  let ?zero = "stack_of [IntegerCell 6, IntegerCell 0]"
  let ?built = "[0 \<mapsto> IntegerCell 6, Suc 0 \<mapsto> IntegerCell 0]"
  have free: "\<not> extensionTablesMutex ?s" by (simp add: divider_registered_def)
  have lower: "(0::int) \<le> 0" by simp
  have upper: "0 < int (length (table ?s integer_integer))" by (simp add: divider_registered_def)
  have order: "evaluation_order (argOrder ?P (enumerate 0 (sig_Ts integer_integer)))
                 (enumerate 0 (sig_Ts integer_integer))"
    by (simp add: evaluation_order_def harness_def left_to_right_def integer_integer_def)
  have fails: "constructArgs ?P (engine (table ?s integer_integer ! nat 0)) ?bad
                 (argOrder ?P (enumerate 0 (sig_Ts integer_integer))) Map.empty (world ?s) =
               (Inl (Exception ''bad cast''),
                [Constructed IntegerT (IntegerCell 6), Constructed IntegerT (StringCell ''three'')])"
    by (simp add: divider_registered_def harness_def left_to_right_def integer_integer_def
          stack_of_def)
  have args: "constructArgs ?P (engine (table ?s integer_integer ! nat 0)) ?zero
                (argOrder ?P (enumerate 0 (sig_Ts integer_integer))) Map.empty (world ?s) =
              (Inr ?built,
               [Constructed IntegerT (IntegerCell 6), Constructed IntegerT (IntegerCell 0)])"
    by (simp add: divider_registered_def harness_def left_to_right_def integer_integer_def
          stack_of_def)
  have call: "fun' (table ?s integer_integer ! nat 0)
                (map (\<lambda>I. the (?built I)) [0..<length (sig_Ts integer_integer)])
                [Constructed IntegerT (IntegerCell 6), Constructed IntegerT (IntegerCell 0)] =
              (Inl (Exception ''zero divide''),
               [Constructed IntegerT (IntegerCell 6), Constructed IntegerT (IntegerCell 0),
                Called ''divide''])"
    by (simp add: divider_registered_def integer_integer_def upt_rec)
  have fin: "?s\<lparr>world := w\<rparr> = divider_registered w" for w
    by (simp add: divider_registered_def)
  from bounceShim_failure_propagates [OF free lower upper order,
      where stack = ?bad and x = "Exception ''bad cast''"
        and ?w1.0 = "[Constructed IntegerT (IntegerCell 6), Constructed IntegerT (StringCell ''three'')]"]
    fails
  have a: "bounceShim ?P integer_integer 0 ?bad ?s =
     (Inl (Exception ''bad cast''), ?bad,
      divider_registered
        [Constructed IntegerT (IntegerCell 6), Constructed IntegerT (StringCell ''three'')])"
    unfolding fin by blast
  from bounceShim_failure_propagates [OF free lower upper order,
      where stack = ?zero and x = "Exception ''zero divide''" and built = ?built
        and ?w1.0 = "[Constructed IntegerT (IntegerCell 6), Constructed IntegerT (IntegerCell 0)]"
        and ?w2.0 = "[Constructed IntegerT (IntegerCell 6), Constructed IntegerT (IntegerCell 0),
          Called ''divide'']"] args call
  have b: "bounceShim ?P integer_integer 0 ?zero ?s =
     (Inl (Exception ''zero divide''), ?zero,
      divider_registered
        [Constructed IntegerT (IntegerCell 6), Constructed IntegerT (IntegerCell 0),
         Called ''divide''])"
    unfolding fin by blast
  from a b show ?thesis by blast
qed

subsection \<open>The trampoline outside a registration\<close>

text \<open>
  Claim C10. A trampoline that is called while the capture slots are empty, and that holds
  no identity yet, stores the sentinel \<open>-1\<close> and the null bouncer, answers
  \<^verbatim>\<open>REN_SHIM_INITIALIZED\<close> and forwards nothing: the host's state and the tables are as
  before. It is still without identity, so the next call takes the same branch. The
  answer and the state left do not depend on the stack, and the stack is returned as it
  was given, whether null or not.
\<close>

theorem trampoline_outside_registration:
  assumes "shim_id (statics s t) = - 1"
    and "shimIdToCapture s = - 1" and "shimBouncerToCapture s = None"
  shows "callShim P (REN_STD_FUNCTION t) stack s =
           (Inr REN_SHIM_INITIALIZED, stack,
            s\<lparr>statics := (statics s)(t := \<lparr>shim_id = - 1, shim_bouncer = None\<rparr>)\<rparr>)
       \<and> callShim P (REN_STD_FUNCTION t) stack2
            (s\<lparr>statics := (statics s)(t := \<lparr>shim_id = - 1, shim_bouncer = None\<rparr>)\<rparr>) =
           (Inr REN_SHIM_INITIALIZED, stack2,
            s\<lparr>statics := (statics s)(t := \<lparr>shim_id = - 1, shim_bouncer = None\<rparr>)\<rparr>)"
  using assms by (simp add: REN_STD_FUNCTION_call_def)

theorem trampoline_outside_registration_witness:
  "callShim (harness left_to_right) (REN_STD_FUNCTION 0) None (startup []) =
     (Inr REN_SHIM_INITIALIZED, None, startup [])
   \<and> callShim (harness left_to_right) (REN_STD_FUNCTION 0)
       (stack_of [IntegerCell 2, IntegerCell 3]) (startup []) =
     (Inr REN_SHIM_INITIALIZED, stack_of [IntegerCell 2, IntegerCell 3], startup [])"
proof -
  let ?s = "startup [] :: (nat, HType, HCell, HEvent list) Process"
  have a: "shim_id (statics ?s 0) = - 1" by (simp add: startup_def)
  have b: "shimIdToCapture ?s = - 1" by (simp add: startup_def)
  have c: "shimBouncerToCapture ?s = None" by (simp add: startup_def)
  have d: "?s\<lparr>statics := (statics ?s)(0 := \<lparr>shim_id = - 1, shim_bouncer = None\<rparr>)\<rparr> = ?s"
    by (simp add: startup_def fun_eq_iff)
  show ?thesis
    using trampoline_outside_registration
      [OF a b c, of "harness left_to_right" None "stack_of [IntegerCell 2, IntegerCell 3]"]
    unfolding d by simp
qed

subsection \<open>A registration whose identify call fails\<close>

text \<open>
  Claim C5. A registration starts with the mutex free and the capture slots empty. If the
  call of the shim with the null stack, made with the slots filled, returns a status
  other than \<^verbatim>\<open>REN_SHIM_INITIALIZED\<close>, the constructor throws the runtime error
  "First shim call didn't return REN_SHIM_INITIALIZED" and the tables of all signatures
  are as they were before the registration: no entry has been appended.
\<close>

theorem failed_identify_aborts_registration:
  assumes "\<not> extensionTablesMutex s"
    and "shimIdToCapture s = - 1" and "shimBouncerToCapture s = None"
    and "callShim P shim None
           (s\<lparr>extensionTablesMutex := True,
              shimIdToCapture := shimIdOfSize (length (table s sg)),
              shimBouncerToCapture := Some sg\<rparr>) = (Inr r, stack', s3)"
    and "r \<noteq> REN_SHIM_INITIALIZED"
  shows "fst (FunctionGenerator P sg eng spec shim f s) =
           Inl (Exception ''First shim call didn't return REN_SHIM_INITIALIZED'')
       \<and> table (snd (FunctionGenerator P sg eng spec shim f s)) = table s"
  using assms callShim_fields(1) [OF assms(4)]
  by (simp add: FunctionGenerator_def Let_def)

theorem failed_identify_aborts_registration_witness:
  "fst (FunctionGenerator (harness left_to_right) integer_integer 7 ''a [integer!] b [integer!]''
          plain_shim add_integers (startup [])) =
     Inl (Exception ''First shim call didn't return REN_SHIM_INITIALIZED'')
   \<and> table (snd (FunctionGenerator (harness left_to_right) integer_integer 7
         ''a [integer!] b [integer!]'' plain_shim add_integers (startup []))) integer_integer = []"
proof -
  let ?s = "startup [] :: (nat, HType, HCell, HEvent list) Process"
  let ?s2 = "?s\<lparr>extensionTablesMutex := True,
               shimIdToCapture := shimIdOfSize (length (table ?s integer_integer)),
               shimBouncerToCapture := Some integer_integer\<rparr>"
  have a: "\<not> extensionTablesMutex ?s" by (simp add: startup_def)
  have b: "shimIdToCapture ?s = - 1" by (simp add: startup_def)
  have c: "shimBouncerToCapture ?s = None" by (simp add: startup_def)
  have d: "callShim (harness left_to_right) plain_shim None ?s2 = (Inr REN_SUCCESS, None, ?s2)"
    by (simp add: plain_shim_def)
  have e: "REN_SUCCESS \<noteq> REN_SHIM_INITIALIZED" by simp
  have t: "table ?s integer_integer = []" by (simp add: startup_def)
  show ?thesis
    using failed_identify_aborts_registration
      [OF a b c d e, of 7 "''a [integer!] b [integer!]''" add_integers]
    by (simp add: t)
qed

text \<open>
  Claim C6 says that the capture slots are empty after every registration, also after one
  that fails. The constructor empties them only after the test of the shim's answer, so
  the exception of claim C5 leaves them filled. Here the registration of the integer adder
  with a shim that answers \<^verbatim>\<open>REN_SUCCESS\<close> throws and leaves the pending id \<open>0\<close> and the
  bouncer of the signature in the slots; the next registration then fails its own
  assertion that the slots are empty.
\<close>

theorem failed_registration_leaves_capture_slots:
  "fst (FunctionGenerator (harness left_to_right) integer_integer 7 ''a [integer!] b [integer!]''
          plain_shim add_integers (startup [])) =
     Inl (Exception ''First shim call didn't return REN_SHIM_INITIALIZED'')
   \<and> shimIdToCapture (snd (FunctionGenerator (harness left_to_right) integer_integer 7
         ''a [integer!] b [integer!]'' plain_shim add_integers (startup []))) = 0
   \<and> shimBouncerToCapture (snd (FunctionGenerator (harness left_to_right) integer_integer 7
         ''a [integer!] b [integer!]'' plain_shim add_integers (startup []))) = Some integer_integer
   \<and> fst (FunctionGenerator (harness left_to_right) integer_integer 7 ''a [integer!] b [integer!]''
          (REN_STD_FUNCTION 0) add_integers
          (snd (FunctionGenerator (harness left_to_right) integer_integer 7
             ''a [integer!] b [integer!]'' plain_shim add_integers (startup [])))) =
     Inl AssertionFailed"
  by (simp add: FunctionGenerator_def Let_def startup_def plain_shim_def shimIdOfSize_def)

subsection \<open>Histories: tables only grow, identities stay\<close>

lemma FunctionGenerator_prefix:
  assumes "FunctionGenerator P sg eng spec shim f s = (r, s')"
  shows "prefix (table s sg') (table s' sg')"
  using FunctionGenerator_table [OF assms] by auto

lemma step_prefix:
  assumes "step P a s = (x, s')"
  shows "prefix (table s sg) (table s' sg)"
proof (cases a)
  case (Register sg' eng spec shim f)
  then show ?thesis
    using assms FunctionGenerator_prefix [of P sg' eng spec shim f s _ _ sg]
    by (auto split: prod.splits sum.splits)
next
  case (Invoke shim stack)
  then show ?thesis
    using assms by (auto split: prod.splits sum.splits dest: callShim_fields(1))
qed

lemma step_identified:
  assumes "step P a s = (x, s')" and "shim_id (statics s t) \<noteq> - 1"
  shows "statics s' t = statics s t"
proof (cases a)
  case (Register sg' eng spec shim f)
  then show ?thesis
    using assms FunctionGenerator_identified [of P sg' eng spec shim f s _ _ t]
    by (auto split: prod.splits sum.splits)
next
  case (Invoke shim stack)
  then show ?thesis
    using assms callShim_identified [of P shim stack s _ _ _ t]
    by (auto split: prod.splits sum.splits)
qed

lemma run_prefix:
  "run P as s = Some s' \<Longrightarrow> prefix (table s sg) (table s' sg)"
proof (induction as arbitrary: s)
  case Nil
  then show ?case by simp
next
  case (Cons a as)
  obtain x s1 where st: "step P a s = (x, s1)" by (cases "step P a s")
  with Cons.prems have "run P as s1 = Some s'"
    by (auto split: option.splits if_splits)
  then have "prefix (table s1 sg) (table s' sg)" by (rule Cons.IH)
  with step_prefix [OF st, of sg] show ?case by (rule prefix_order.trans)
qed

lemma run_identified:
  "run P as s = Some s' \<Longrightarrow> shim_id (statics s t) \<noteq> - 1 \<Longrightarrow> statics s' t = statics s t"
proof (induction as arbitrary: s)
  case Nil
  then show ?case by simp
next
  case (Cons a as)
  obtain x s1 where st: "step P a s = (x, s1)" by (cases "step P a s")
  with Cons.prems have r: "run P as s1 = Some s'"
    by (auto split: option.splits if_splits)
  have s1: "statics s1 t = statics s t" using step_identified [OF st Cons.prems(2)] .
  with Cons.prems(2) have "shim_id (statics s1 t) \<noteq> - 1" by simp
  from Cons.IH [OF r this] s1 show ?case by simp
qed

lemma vector_at_prefix:
  assumes "prefix xs ys" and "vector_at xs i = Inr e"
  shows "vector_at ys i = Inr e"
proof -
  from assms(1) obtain zs where ys: "ys = xs @ zs" by (auto simp: prefix_def)
  from assms(2) have "0 \<le> i" "i < int (length xs)" "xs ! nat i = e"
    by (auto simp: vector_at_def split: if_splits)
  moreover from this have "nat i < length xs" by linarith
  ultimately show ?thesis by (simp add: ys vector_at_def nth_append)
qed

lemma vector_at_appended:
  "vector_at (xs @ [e]) (int (length xs)) = Inr e"
  by (simp add: vector_at_def)

text \<open>
  A registration through a fresh trampoline that returns a function: what the trampoline
  holds and what the table holds afterwards.
\<close>

lemma registered:
  assumes reg: "FunctionGenerator P sg eng spec (REN_STD_FUNCTION t) f s0 = (Inr c, s1)"
    and fresh: "shim_id (statics s0 t) = - 1"
    and bound: "length (table s0 sg) < 2 ^ 31"
  shows "statics s1 t = \<lparr>shim_id = int (length (table s0 sg)), shim_bouncer = Some sg\<rparr>"
    and "table s1 sg = table s0 sg @ [\<lparr>engine = eng, fun' = f\<rparr>]"
    and "vector_at (table s1 sg) (int (length (table s0 sg))) = Inr \<lparr>engine = eng, fun' = f\<rparr>"
proof -
  show "statics s1 t = \<lparr>shim_id = int (length (table s0 sg)), shim_bouncer = Some sg\<rparr>"
    using FunctionGenerator_captured [OF reg fresh] shimIdOfSize_small [OF bound] by simp
  show t: "table s1 sg = table s0 sg @ [\<lparr>engine = eng, fun' = f\<rparr>]"
    using FunctionGenerator_success(4) [OF reg] by simp
  show "vector_at (table s1 sg) (int (length (table s0 sg))) = Inr \<lparr>engine = eng, fun' = f\<rparr>"
    unfolding t by (rule vector_at_appended)
qed

lemma registered_later:
  assumes reg: "FunctionGenerator P sg eng spec (REN_STD_FUNCTION t) f s0 = (Inr c, s1)"
    and fresh: "shim_id (statics s0 t) = - 1"
    and bound: "length (table s0 sg) < 2 ^ 31"
    and later: "run P ops s1 = Some s2"
  shows "statics s2 t = \<lparr>shim_id = int (length (table s0 sg)), shim_bouncer = Some sg\<rparr>"
    and "vector_at (table s2 sg) (int (length (table s0 sg))) = Inr \<lparr>engine = eng, fun' = f\<rparr>"
    and "length (table s0 sg) < length (table s2 sg)"
proof -
  note r = registered [OF reg fresh bound]
  have "shim_id (statics s1 t) \<noteq> - 1" using r(1) by simp
  from run_identified [OF later this] r(1)
  show "statics s2 t = \<lparr>shim_id = int (length (table s0 sg)), shim_bouncer = Some sg\<rparr>"
    by simp
  have p: "prefix (table s1 sg) (table s2 sg)" using run_prefix [OF later] .
  from vector_at_prefix [OF p r(3)]
  show "vector_at (table s2 sg) (int (length (table s0 sg))) = Inr \<lparr>engine = eng, fun' = f\<rparr>" .
  from p have "length (table s1 sg) \<le> length (table s2 sg)" by (rule prefix_length_le)
  with r(2) show "length (table s0 sg) < length (table s2 sg)" by simp
qed

text \<open>
  Registrations in a row for one signature, each through its own fresh trampoline: the
  entries are appended in the order of registration and the trampolines hold consecutive
  ids, from the size the table had (from \<open>0\<close> at start-up). A registration whose
  finalization throws has already appended its entry and given its id.
\<close>

lemma FunctionGenerator_fresh:
  assumes "FunctionGenerator P sg eng spec (REN_STD_FUNCTION t) f s = (r, s1)"
    and "shim_id (statics s t) = - 1"
    and "\<And>x. r = Inl x \<Longrightarrow> \<not> fatal x"
  shows "table s1 = (table s)(sg := table s sg @ [\<lparr>engine = eng, fun' = f\<rparr>])"
    and "statics s1 =
           (statics s)(t := \<lparr>shim_id = shimIdOfSize (length (table s sg)), shim_bouncer = Some sg\<rparr>)"
  using assms
  by (auto simp: FunctionGenerator_def Let_def REN_STD_FUNCTION_call_def unwind_def
           split: if_splits prod.splits sum.splits)

lemma registrations_in_a_row:
  assumes "run P (map (\<lambda>(t, eng, spec, f). Register sg eng spec (REN_STD_FUNCTION t) f) regs) s
             = Some s'"
    and "distinct (map fst regs)"
    and "\<And>t. t \<in> fst ` set regs \<Longrightarrow> shim_id (statics s t) = - 1"
    and "length (table s sg) + length regs \<le> 2 ^ 31"
  shows "table s' sg = table s sg @ map (\<lambda>(t, eng, spec, f). \<lparr>engine = eng, fun' = f\<rparr>) regs
       \<and> (\<forall>j<length regs. shim_id (statics s' (fst (regs ! j))) = int (length (table s sg) + j))"
  using assms
proof (induction regs arbitrary: s)
  case Nil
  then show ?case by simp
next
  case (Cons a regs)
  obtain t eng spec f where a: "a = (t, eng, spec, f)" by (cases a)
  obtain r s1 where fg: "FunctionGenerator P sg eng spec (REN_STD_FUNCTION t) f s = (r, s1)"
    by (cases "FunctionGenerator P sg eng spec (REN_STD_FUNCTION t) f s")
  from Cons.prems(1) have nonfatal: "\<And>x. r = Inl x \<Longrightarrow> \<not> fatal x"
    and rest: "run P (map (\<lambda>(t, eng, spec, f). Register sg eng spec (REN_STD_FUNCTION t) f) regs) s1
                 = Some s'"
    by (auto simp: a fg split: sum.splits if_splits)
  have fresh: "shim_id (statics s t) = - 1" using Cons.prems(3) [of t] by (simp add: a)
  note fr = FunctionGenerator_fresh [OF fg fresh nonfatal]
  have small: "length (table s sg) < 2 ^ 31" using Cons.prems(4) by simp
  have tab1: "table s1 sg = table s sg @ [\<lparr>engine = eng, fun' = f\<rparr>]" using fr(1) by simp
  have id1: "statics s1 t = \<lparr>shim_id = int (length (table s sg)), shim_bouncer = Some sg\<rparr>"
    using fr(2) shimIdOfSize_small [OF small] by simp
  have notin: "t \<notin> fst ` set regs" and d: "distinct (map fst regs)"
    using Cons.prems(2) by (auto simp: a)
  have fresh1: "\<And>u. u \<in> fst ` set regs \<Longrightarrow> shim_id (statics s1 u) = - 1"
    using Cons.prems(3) notin fr(2) by (auto simp: a)
  have len1: "length (table s1 sg) + length regs \<le> 2 ^ 31"
    using Cons.prems(4) tab1 by simp
  note IH = Cons.IH [OF rest d fresh1 len1]
  have "shim_id (statics s1 t) \<noteq> - 1" using id1 by simp
  from run_identified [OF rest this] id1
  have idt: "shim_id (statics s' t) = int (length (table s sg))" by simp
  have "shim_id (statics s' (fst ((a # regs) ! j))) = int (length (table s sg) + j)"
    if "j < length (a # regs)" for j
  proof (cases j)
    case 0
    then show ?thesis using idt by (simp add: a)
  next
    case (Suc k)
    then show ?thesis using IH that tab1 by simp
  qed
  with IH tab1 show ?case by (simp add: a)
qed

subsection \<open>Identity of a registered trampoline\<close>

text \<open>
  Claim C2. Let a registration through the trampoline \<open>t\<close>, which holds no identity yet,
  return a function, with fewer than \<open>2^31\<close> entries in the table (so that the size is
  an \<^verbatim>\<open>int\<close>). Its one call of the trampoline stores the identity: the id is the size
  the table had and the bouncer is the signature's \<open>bounceShim\<close>. After any further
  history of registrations and calls that the process survives, the trampoline holds
  the same identity, a call of it is the call \<open>bounceShim(id, stack)\<close> (it does not copy
  the capture slots again), and the id still selects the engine and callable that were
  registered.
\<close>

theorem trampoline_identity_captured_once:
  assumes reg: "FunctionGenerator P sg eng spec (REN_STD_FUNCTION t) f s0 = (Inr c, s1)"
    and fresh: "shim_id (statics s0 t) = - 1"
    and bound: "length (table s0 sg) < 2 ^ 31"
    and later: "run P ops s1 = Some s2"
  shows "statics s1 t = \<lparr>shim_id = int (length (table s0 sg)), shim_bouncer = Some sg\<rparr>
       \<and> statics s2 t = statics s1 t
       \<and> callShim P (REN_STD_FUNCTION t) stack s2 =
           bounceShim P sg (int (length (table s0 sg))) stack s2
       \<and> vector_at (table s2 sg) (int (length (table s0 sg))) = Inr \<lparr>engine = eng, fun' = f\<rparr>"
proof -
  note a = registered(1) [OF reg fresh bound]
  note b = registered_later [OF reg fresh bound later]
  have "callShim P (REN_STD_FUNCTION t) stack s2 =
          bounceShim P sg (int (length (table s0 sg))) stack s2"
    by (simp add: REN_STD_FUNCTION_call_def b(1))
  with a b show ?thesis by simp
qed

theorem trampoline_identity_captured_once_witness:
  "statics (adder_registered []) 0 = \<lparr>shim_id = 0, shim_bouncer = Some integer_integer\<rparr>
   \<and> statics (both_registered (add_events @ multiply_events)) 0 = statics (adder_registered []) 0
   \<and> callShim (harness left_to_right) (REN_STD_FUNCTION 0)
        (stack_of [IntegerCell 2, IntegerCell 3]) (both_registered (add_events @ multiply_events)) =
      bounceShim (harness left_to_right) integer_integer 0
        (stack_of [IntegerCell 2, IntegerCell 3]) (both_registered (add_events @ multiply_events))
   \<and> vector_at (table (both_registered (add_events @ multiply_events)) integer_integer) 0 =
      Inr \<lparr>engine = 7, fun' = add_integers\<rparr>"
proof -
  let ?P = "harness left_to_right"
  let ?st = "stack_of [IntegerCell 2, IntegerCell 3]"
  have fresh: "shim_id (statics (startup [] :: (nat, HType, HCell, HEvent list) Process) 0) = - 1"
    by (simp add: startup_def)
  have bound:
    "length (table (startup [] :: (nat, HType, HCell, HEvent list) Process) integer_integer) < 2 ^ 31"
    by (simp add: startup_def)
  have later:
    "run ?P [Invoke (REN_STD_FUNCTION 0) ?st,
             Register integer_integer 7 add_spec (REN_STD_FUNCTION 1) multiply_integers,
             Invoke (REN_STD_FUNCTION 1) ?st]
       (adder_registered []) = Some (both_registered (add_events @ multiply_events))"
    by (simp add: invoke_adder_once register_multiplier invoke_multiplier_both
          del: callShim.simps One_nat_def)
  have len: "length (table (startup [] :: (nat, HType, HCell, HEvent list) Process) integer_integer) = 0"
    by (simp add: startup_def)
  show ?thesis
    using trampoline_identity_captured_once [OF register_adder fresh bound later, of ?st]
    by (simp add: len)
qed

subsection \<open>Issued ids\<close>

text \<open>
  Claim C7. Two callables are registered for one signature, one after the other, each
  through a fresh trampoline, with any history in between and after, and the table
  stays shorter than \<open>2^31\<close>. Then the two trampolines hold different ids, at the end
  each id still selects the engine and callable registered with it, and at every stage
  the table is the earlier table with entries appended: none was removed or changed.
\<close>

theorem issued_ids_distinct_and_stable:
  assumes regA: "FunctionGenerator P sg engA specA (REN_STD_FUNCTION tA) fA s0 = (Inr cA, s1)"
    and freshA: "shim_id (statics s0 tA) = - 1"
    and between: "run P ops s1 = Some s2"
    and regB: "FunctionGenerator P sg engB specB (REN_STD_FUNCTION tB) fB s2 = (Inr cB, s3)"
    and freshB: "shim_id (statics s2 tB) = - 1"
    and bound: "length (table s2 sg) < 2 ^ 31"
    and after: "run P ops' s3 = Some s4"
  shows "shim_id (statics s4 tA) \<noteq> shim_id (statics s4 tB)
       \<and> vector_at (table s4 sg) (shim_id (statics s4 tA)) = Inr \<lparr>engine = engA, fun' = fA\<rparr>
       \<and> vector_at (table s4 sg) (shim_id (statics s4 tB)) = Inr \<lparr>engine = engB, fun' = fB\<rparr>
       \<and> prefix (table s0 sg) (table s1 sg) \<and> prefix (table s1 sg) (table s2 sg)
       \<and> prefix (table s2 sg) (table s3 sg) \<and> prefix (table s3 sg) (table s4 sg)"
proof -
  have p01: "prefix (table s0 sg) (table s1 sg)" using FunctionGenerator_prefix [OF regA] .
  have p12: "prefix (table s1 sg) (table s2 sg)" using run_prefix [OF between] .
  have p23: "prefix (table s2 sg) (table s3 sg)" using FunctionGenerator_prefix [OF regB] .
  have p34: "prefix (table s3 sg) (table s4 sg)" using run_prefix [OF after] .
  have "length (table s0 sg) \<le> length (table s2 sg)"
    using prefix_length_le [OF p01] prefix_length_le [OF p12] by simp
  with bound have boundA: "length (table s0 sg) < 2 ^ 31" by simp
  note A2 = registered_later [OF regA freshA boundA between]
  have "shim_id (statics s2 tA) \<noteq> - 1" using A2(1) by simp
  from FunctionGenerator_identified [OF regB this]
  have A3: "statics s3 tA = statics s2 tA" .
  with A2(1) have "shim_id (statics s3 tA) \<noteq> - 1" by simp
  from run_identified [OF after this] A3 A2(1)
  have A4: "statics s4 tA = \<lparr>shim_id = int (length (table s0 sg)), shim_bouncer = Some sg\<rparr>"
    by simp
  note B4 = registered_later [OF regB freshB bound after]
  have eA: "vector_at (table s4 sg) (int (length (table s0 sg))) = Inr \<lparr>engine = engA, fun' = fA\<rparr>"
    using vector_at_prefix [OF p34 vector_at_prefix [OF p23 A2(2)]] .
  have "length (table s0 sg) \<noteq> length (table s2 sg)" using A2(3) by simp
  with A4 B4 eA p01 p12 p23 p34 show ?thesis by simp
qed

theorem issued_ids_distinct_and_stable_witness:
  "shim_id (statics (both_registered (add_events @ multiply_events @ add_events)) 0) \<noteq>
   shim_id (statics (both_registered (add_events @ multiply_events @ add_events)) 1)
   \<and> vector_at (table (both_registered (add_events @ multiply_events @ add_events)) integer_integer)
        (shim_id (statics (both_registered (add_events @ multiply_events @ add_events)) 0)) =
      Inr \<lparr>engine = 7, fun' = add_integers\<rparr>
   \<and> vector_at (table (both_registered (add_events @ multiply_events @ add_events)) integer_integer)
        (shim_id (statics (both_registered (add_events @ multiply_events @ add_events)) 1)) =
      Inr \<lparr>engine = 7, fun' = multiply_integers\<rparr>
   \<and> prefix (table (adder_registered add_events) integer_integer)
        (table (both_registered (add_events @ multiply_events @ add_events)) integer_integer)"
proof -
  let ?P = "harness left_to_right"
  let ?st = "stack_of [IntegerCell 2, IntegerCell 3]"
  have freshA: "shim_id (statics (startup [] :: (nat, HType, HCell, HEvent list) Process) 0) = - 1"
    by (simp add: startup_def)
  have between:
    "run ?P [Invoke (REN_STD_FUNCTION 0) ?st] (adder_registered []) =
       Some (adder_registered add_events)"
    by (simp add: invoke_adder_once del: callShim.simps)
  have freshB: "shim_id (statics (adder_registered add_events) 1) = - 1"
    by (simp add: adder_registered_def)
  have bound: "length (table (adder_registered add_events) integer_integer) < 2 ^ 31"
    by (simp add: adder_registered_def)
  have after:
    "run ?P [Invoke (REN_STD_FUNCTION 1) ?st, Invoke (REN_STD_FUNCTION 0) ?st]
       (both_registered add_events) =
       Some (both_registered (add_events @ multiply_events @ add_events))"
    by (simp add: invoke_adder_both invoke_multiplier_both del: callShim.simps One_nat_def)
  show ?thesis
    using issued_ids_distinct_and_stable
      [OF register_adder freshA between register_multiplier freshB bound after]
      prefix_order.trans
    by blast
qed

text \<open>
  Claim C8. An id that a completed registration gave to a trampoline is, at any later
  moment of a history the process survives, at least \<open>0\<close> and below the size of the
  signature's table, and \<^verbatim>\<open>table[id]\<close> is the entry registered. For an id outside the
  table \<open>bounceShim\<close> has no error to report: the unchecked index is undefined
  behaviour, with the stack and the state untouched in the model.
\<close>

theorem issued_id_in_bounds:
  assumes reg: "FunctionGenerator P sg eng spec (REN_STD_FUNCTION t) f s0 = (Inr c, s1)"
    and fresh: "shim_id (statics s0 t) = - 1"
    and bound: "length (table s0 sg) < 2 ^ 31"
    and later: "run P ops s1 = Some s2"
  shows "0 \<le> shim_id (statics s2 t)
       \<and> shim_id (statics s2 t) < int (length (table s2 sg))
       \<and> vector_at (table s2 sg) (shim_id (statics s2 t)) = Inr \<lparr>engine = eng, fun' = f\<rparr>
       \<and> (j < 0 \<or> int (length (table s sg)) \<le> j \<longrightarrow>
            bounceShim P sg j stack s = (Inl UndefinedBehaviour, stack, s))"
proof -
  note b = registered_later [OF reg fresh bound later]
  have "j < 0 \<or> int (length (table s sg)) \<le> j \<longrightarrow>
          bounceShim P sg j stack s = (Inl UndefinedBehaviour, stack, s)"
    by (auto simp: bounceShim_def vector_at_def)
  with b show ?thesis by simp
qed

theorem issued_id_in_bounds_witness:
  "0 \<le> shim_id (statics (both_registered (add_events @ multiply_events)) 0)
   \<and> shim_id (statics (both_registered (add_events @ multiply_events)) 0)
       < int (length (table (both_registered (add_events @ multiply_events)) integer_integer))
   \<and> vector_at (table (both_registered (add_events @ multiply_events)) integer_integer)
       (shim_id (statics (both_registered (add_events @ multiply_events)) 0)) =
      Inr \<lparr>engine = 7, fun' = add_integers\<rparr>
   \<and> bounceShim (harness left_to_right) integer_integer 2
       (stack_of [IntegerCell 2, IntegerCell 3]) (both_registered []) =
      (Inl UndefinedBehaviour, stack_of [IntegerCell 2, IntegerCell 3], both_registered [])"
proof -
  let ?P = "harness left_to_right"
  let ?st = "stack_of [IntegerCell 2, IntegerCell 3]"
  have fresh: "shim_id (statics (startup [] :: (nat, HType, HCell, HEvent list) Process) 0) = - 1"
    by (simp add: startup_def)
  have bound:
    "length (table (startup [] :: (nat, HType, HCell, HEvent list) Process) integer_integer) < 2 ^ 31"
    by (simp add: startup_def)
  have later:
    "run ?P [Invoke (REN_STD_FUNCTION 0) ?st,
             Register integer_integer 7 add_spec (REN_STD_FUNCTION 1) multiply_integers,
             Invoke (REN_STD_FUNCTION 1) ?st]
       (adder_registered []) = Some (both_registered (add_events @ multiply_events))"
    by (simp add: invoke_adder_once register_multiplier invoke_multiplier_both
          del: callShim.simps One_nat_def)
  have out: "(2::int) < 0 \<or> int (length (table (both_registered []) integer_integer)) \<le> 2"
    by (simp add: both_registered_def)
  show ?thesis
    using issued_id_in_bounds
      [OF register_adder fresh bound later, of 2 "both_registered []" ?st] out
    by blast
qed

text \<open>
  Claim C9. A registration through a fresh trampoline that returns a function, on a
  table shorter than \<open>2^31\<close>, gives the trampoline the number of entries the
  signature's table held; the entry is appended at exactly that index and the tables of
  the other signatures are as before. Counted from start-up, where every table is empty:
  when callables of one signature are registered in a row, each through its own
  trampoline, the table holds their entries in that order and the \<open>j\<close>-th trampoline
  holds the id \<open>j\<close>, so the ids are \<open>0, 1, 2, \<dots>\<close>.
\<close>

theorem issued_id_is_table_size:
  fixes P :: "('e, 'c, 't, 'v, 'w) Runtime"
  shows
  "(FunctionGenerator P sg eng spec (REN_STD_FUNCTION t) f s0 = (Inr c, s1) \<and>
    shim_id (statics s0 t) = - 1 \<and> length (table s0 sg) < 2 ^ 31 \<longrightarrow>
      shim_id (statics s1 t) = int (length (table s0 sg))
      \<and> table s1 sg = table s0 sg @ [\<lparr>engine = eng, fun' = f\<rparr>]
      \<and> vector_at (table s1 sg) (shim_id (statics s1 t)) = Inr \<lparr>engine = eng, fun' = f\<rparr>
      \<and> (sg' \<noteq> sg \<longrightarrow> table s1 sg' = table s0 sg'))
   \<and> (run P (map (\<lambda>(t, eng, spec, f). Register sg eng spec (REN_STD_FUNCTION t) f) regs)
         (startup w) = Some s' \<and>
       distinct (map fst regs) \<and> length regs \<le> 2 ^ 31 \<longrightarrow>
      table s' sg = map (\<lambda>(t, eng, spec, f). \<lparr>engine = eng, fun' = f\<rparr>) regs
      \<and> (\<forall>j<length regs. shim_id (statics s' (fst (regs ! j))) = int j))"
proof (intro conjI impI)
  assume h: "FunctionGenerator P sg eng spec (REN_STD_FUNCTION t) f s0 = (Inr c, s1) \<and>
    shim_id (statics s0 t) = - 1 \<and> length (table s0 sg) < 2 ^ 31"
  then have reg: "FunctionGenerator P sg eng spec (REN_STD_FUNCTION t) f s0 = (Inr c, s1)"
    and fresh: "shim_id (statics s0 t) = - 1" and bound: "length (table s0 sg) < 2 ^ 31"
    by simp_all
  note a = registered [OF reg fresh bound]
  show "shim_id (statics s1 t) = int (length (table s0 sg))" using a(1) by simp
  show "table s1 sg = table s0 sg @ [\<lparr>engine = eng, fun' = f\<rparr>]" using a(2) .
  show "vector_at (table s1 sg) (shim_id (statics s1 t)) = Inr \<lparr>engine = eng, fun' = f\<rparr>"
    using a(1) a(3) by simp
  show "table s1 sg' = table s0 sg'" if "sg' \<noteq> sg"
    using FunctionGenerator_success(4) [OF reg] that by simp
next
  assume h: "run P (map (\<lambda>(t, eng, spec, f). Register sg eng spec (REN_STD_FUNCTION t) f) regs)
         (startup w) = Some s' \<and> distinct (map fst regs) \<and> length regs \<le> 2 ^ 31"
  have fresh: "\<And>t. t \<in> fst ` set regs \<Longrightarrow>
                 shim_id (statics (startup w :: ('e, 't, 'v, 'w) Process) t) = - 1"
    by (simp add: startup_def)
  have empty: "table (startup w :: ('e, 't, 'v, 'w) Process) sg = []"
    by (simp add: startup_def)
  from h have len: "length (table (startup w :: ('e, 't, 'v, 'w) Process) sg) + length regs \<le> 2 ^ 31"
    by (simp add: empty)
  from h registrations_in_a_row [of P sg regs "startup w" s', OF _ _ fresh len]
  have r: "table s' sg =
        table (startup w) sg @ map (\<lambda>(t, eng, spec, f). \<lparr>engine = eng, fun' = f\<rparr>) regs
      \<and> (\<forall>j<length regs. shim_id (statics s' (fst (regs ! j))) =
            int (length (table (startup w :: ('e, 't, 'v, 'w) Process) sg) + j))"
    by blast
  from r show "table s' sg = map (\<lambda>(t, eng, spec, f). \<lparr>engine = eng, fun' = f\<rparr>) regs"
    by (simp add: empty)
  from r show "\<forall>j<length regs. shim_id (statics s' (fst (regs ! j))) = int j"
    by (simp add: empty)
qed

theorem issued_id_is_table_size_witness:
  "shim_id (statics (both_registered []) 1) = 1
   \<and> table (both_registered []) integer_integer =
       table (adder_registered []) integer_integer @ [\<lparr>engine = 7, fun' = multiply_integers\<rparr>]
   \<and> vector_at (table (both_registered []) integer_integer) (shim_id (statics (both_registered []) 1)) =
       Inr \<lparr>engine = 7, fun' = multiply_integers\<rparr>
   \<and> table (both_registered []) \<lparr>sig_R = StringT, sig_Ts = []\<rparr> =
       table (adder_registered []) \<lparr>sig_R = StringT, sig_Ts = []\<rparr>
   \<and> table (both_registered []) integer_integer =
       [\<lparr>engine = 7, fun' = add_integers\<rparr>, \<lparr>engine = 7, fun' = multiply_integers\<rparr>]
   \<and> shim_id (statics (both_registered []) 0) = 0"
proof -
  let ?P = "harness left_to_right"
  let ?regs = "[(0::nat, 7::nat, add_spec, add_integers), (1, 7, add_spec, multiply_integers)]"
  have fresh: "shim_id (statics (adder_registered []) 1) = - 1"
    by (simp add: adder_registered_def)
  have bound: "length (table (adder_registered []) integer_integer) < 2 ^ 31"
    by (simp add: adder_registered_def)
  have len: "length (table (adder_registered []) integer_integer) = 1"
    by (simp add: adder_registered_def)
  have other: "\<lparr>sig_R = StringT, sig_Ts = []\<rparr> \<noteq> integer_integer"
    by (simp add: integer_integer_def)
  have row: "run ?P (map (\<lambda>(t, eng, spec, f).
                 Register integer_integer eng spec (REN_STD_FUNCTION t) f) ?regs) (startup []) =
             Some (both_registered [])"
    by (simp add: register_adder register_multiplier del: One_nat_def)
  have d: "distinct (map fst ?regs)" by simp
  have n: "length ?regs \<le> 2 ^ 31" by simp
  have j: "(0::nat) < length ?regs" by simp
  have one: "int (Suc 0) = 1" by simp
  note th = issued_id_is_table_size
    [where P = ?P and sg = integer_integer and ?s0.0 = "adder_registered []" and t = 1
       and eng = 7 and spec = add_spec and f = multiply_integers
       and c = "FunctionCell add_spec" and ?s1.0 = "both_registered []"
       and ?sg' = "\<lparr>sig_R = StringT, sig_Ts = []\<rparr>"
       and regs = ?regs and w = "[]" and ?s' = "both_registered []"]
  from th register_multiplier [of left_to_right "[]"] fresh bound other
  have a: "shim_id (statics (both_registered []) 1) = int (length (table (adder_registered []) integer_integer))
   \<and> table (both_registered []) integer_integer =
       table (adder_registered []) integer_integer @ [\<lparr>engine = 7, fun' = multiply_integers\<rparr>]
   \<and> vector_at (table (both_registered []) integer_integer) (shim_id (statics (both_registered []) 1)) =
       Inr \<lparr>engine = 7, fun' = multiply_integers\<rparr>
   \<and> table (both_registered []) \<lparr>sig_R = StringT, sig_Ts = []\<rparr> =
       table (adder_registered []) \<lparr>sig_R = StringT, sig_Ts = []\<rparr>"
    by blast
  from th row d n
  have b: "table (both_registered []) integer_integer =
             map (\<lambda>(t, eng, spec, f). \<lparr>engine = eng, fun' = f\<rparr>) ?regs
         \<and> (\<forall>j<length ?regs. shim_id (statics (both_registered []) (fst (?regs ! j))) = int j)"
    by blast
  from b j have b0: "shim_id (statics (both_registered []) (fst (?regs ! 0))) = int 0" by blast
  from a b b0 show ?thesis by (simp add: len vector_at_def)
qed

end
